theory Spec2Isabelle
  imports Main
begin

section \<open>Tensors and errors\<close>

text \<open>
  The module \<^verbatim>\<open>nemo/collections/multimodal/speech_cv/data/audio_and_video_to_text.py\<close>
  works on torch tensors. Only their shapes and their contents are modelled; the element
  type of a signal is any type with a zero (what \<^verbatim>\<open>new_zeros\<close> and \<^verbatim>\<open>pad\<close> fill in).

  \<^item> an audio signal is a 1-d tensor of shape \<open>(Ta,)\<close>: a list;
  \<^item> a video signal is a 4-d tensor of shape \<open>(Tv, H, W, C)\<close>: the three trailing
    dimensions and the list of its \<open>Tv\<close> frames, each frame \<open>H \<times> W \<times> C\<close> values.

  Exceptions are values: a function that can raise returns \<open>error + 'a\<close>.
\<close>

datatype error =
    ValueError string
  | TypeError
  | AttributeError
  | RuntimeError
  | KeyError string
  | OverflowError
  | StopIteration

type_synonym 'a frame = "'a list list list"

record 'a video =
  vH :: nat
  vW :: nat
  vC :: nat
  frames :: "'a frame list"

definition zero_frame :: "nat \<Rightarrow> nat \<Rightarrow> nat \<Rightarrow> ('a::zero) frame" where
  "zero_frame H W C = replicate H (replicate W (replicate C 0))"

text \<open>
  \<^verbatim>\<open>t.new_zeros(n)\<close> and \<^verbatim>\<open>t.new_zeros(n, H, W, C)\<close>: a zero tensor with \<open>n\<close> entries
  along dimension 0; torch raises a RuntimeError for a negative dimension.
\<close>

definition new_zeros :: "int \<Rightarrow> error + ('a::zero) list" where
  "new_zeros n = (if n < 0 then Inl RuntimeError else Inr (replicate (nat n) 0))"

definition new_zeros4 :: "int \<Rightarrow> nat \<Rightarrow> nat \<Rightarrow> nat \<Rightarrow> error + ('a::zero) frame list" where
  "new_zeros4 n H W C =
     (if n < 0 then Inl RuntimeError else Inr (replicate (nat n) (zero_frame H W C)))"

section \<open>Audio-video alignment\<close>

text \<open>
  \<^verbatim>\<open>align_audio_and_video\<close> is a method of \<^verbatim>\<open>_AudioVideoTextDataset\<close> and, with the same
  body, of \<^verbatim>\<open>_TarredAudioAndVideoToTextDataset\<close>; neither reads \<^verbatim>\<open>self\<close>. Python's
  \<^verbatim>\<open>//\<close> and \<^verbatim>\<open>%\<close> on integers are floor division and its remainder, as \<open>div\<close> and
  \<open>mod\<close> on \<open>int\<close> are.

  The four expressions the method computes are named after its variables:
  \<^verbatim>\<open>padding = Ta // (160 * 2 * 2) + 1 - Tv\<close> in the branch that pads the video,
  \<^verbatim>\<open>padding = (Tv - 1) * (2 * 2 * 160) - Ta\<close> in the branch that pads the audio,
  \<^verbatim>\<open>padding_left = padding // 2\<close> and \<^verbatim>\<open>padding_right = padding // 2 + padding % 2\<close>.
\<close>

definition video_padding :: "int \<Rightarrow> int \<Rightarrow> int" where
  "video_padding Ta Tv = Ta div (160 * 2 * 2) + 1 - Tv"

definition audio_padding :: "int \<Rightarrow> int \<Rightarrow> int" where
  "audio_padding Ta Tv = (Tv - 1) * (2 * 2 * 160) - Ta"

definition padding_left :: "int \<Rightarrow> int" where
  "padding_left padding = padding div 2"

definition padding_right :: "int \<Rightarrow> int" where
  "padding_right padding = padding div 2 + padding mod 2"

definition align_audio_and_video ::
  "('a::zero) list \<Rightarrow> 'a video \<Rightarrow> error + ('a list \<times> 'a video)" where
  "align_audio_and_video input_audio_signal input_video_signal =
     (let Tv = int (length (frames input_video_signal));
          H = vH input_video_signal;
          W = vW input_video_signal;
          C = vC input_video_signal;
          Ta = int (length input_audio_signal);
          padding = video_padding Ta Tv
      in if padding \<ge> 0 then
           (case new_zeros4 (padding_left padding) H W C of
              Inl e \<Rightarrow> Inl e
            | Inr zl \<Rightarrow>
                (case new_zeros4 (padding_right padding) H W C of
                   Inl e \<Rightarrow> Inl e
                 | Inr zr \<Rightarrow>
                     Inr (input_audio_signal,
                          input_video_signal\<lparr>frames := zl @ frames input_video_signal @ zr\<rparr>)))
         else
           (let padding = audio_padding Ta Tv in
            case new_zeros (padding_left padding) of
              Inl e \<Rightarrow> Inl e
            | Inr zl \<Rightarrow>
                (case new_zeros (padding_right padding) of
                   Inl e \<Rightarrow> Inl e
                 | Inr zr \<Rightarrow>
                     Inr (zl @ input_audio_signal @ zr, input_video_signal))))"

text \<open>The spec's rounding up of a quotient, \<open>ceil(a / b)\<close>, on integers.\<close>

definition ceil_div :: "int \<Rightarrow> int \<Rightarrow> int" where
  "ceil_div a b = - ((- a) div b)"

text \<open>
  The spec's split of a pad count \<open>p\<close> into halves \<open>l\<close> and \<open>r\<close>: the left one is
  \<open>floor(p / 2)\<close>, the right one \<open>ceil(p / 2)\<close>, they add up to \<open>p\<close>, and they differ by
  at most one, exactly when \<open>p\<close> is odd.
\<close>

definition floor_ceil_halves :: "int \<Rightarrow> int \<Rightarrow> int \<Rightarrow> bool" where
  "floor_ceil_halves p l r =
     (l = p div 2 \<and> r = ceil_div p 2 \<and> l + r = p \<and> 0 \<le> r - l \<and> r - l \<le> 1 \<and> (l \<noteq> r) = odd p)"


section \<open>The streaming stages of the tarred dataset\<close>

subsection \<open>File ids\<close>

text \<open>
  \<^verbatim>\<open>_filter\<close> and \<^verbatim>\<open>_build_sample\<close> compute
  \<^verbatim>\<open>file_id, _ = os.path.splitext(os.path.basename(audio_filename))\<close>.
  The two functions of \<^verbatim>\<open>posixpath\<close> are modelled as the standard library defines them:
  \<^verbatim>\<open>basename\<close> cuts after the last \<^verbatim>\<open>/\<close>; \<^verbatim>\<open>splitext\<close> cuts at the last dot of the last
  path component, unless only dots come before it in that component.
\<close>

definition rfind :: "string \<Rightarrow> char \<Rightarrow> int" where
  "rfind p c =
     (if c \<in> set p then int (length p) - 1 - int (length (takeWhile (\<lambda>x. x \<noteq> c) (rev p)))
      else - 1)"

definition basename :: "string \<Rightarrow> string" where
  "basename p = drop (nat (rfind p (CHR ''/'') + 1)) p"

text \<open>
  The loop of \<^verbatim>\<open>genericpath._splitext\<close> that skips leading dots: \<open>True\<close> when it returns
  from inside (a character other than a dot stands before the last dot), \<open>False\<close> when it
  runs out.
\<close>

function skip_dots :: "string \<Rightarrow> nat \<Rightarrow> nat \<Rightarrow> bool" where
  "skip_dots p filenameIndex dotIndex =
     (if filenameIndex < dotIndex
      then (if p ! filenameIndex \<noteq> CHR ''.'' then True
            else skip_dots p (Suc filenameIndex) dotIndex)
      else False)"
  by pat_completeness auto
termination
  by (relation "measure (\<lambda>(p, filenameIndex, dotIndex). dotIndex - filenameIndex)") auto

definition splitext :: "string \<Rightarrow> string \<times> string" where
  "splitext p =
     (let sepIndex = rfind p (CHR ''/'');
          dotIndex = rfind p (CHR ''.'')
      in if dotIndex > sepIndex \<and> skip_dots p (nat (sepIndex + 1)) (nat dotIndex)
         then (take (nat dotIndex) p, drop (nat dotIndex) p)
         else (p, []))"

definition file_id_of :: "string \<Rightarrow> string" where
  "file_id_of audio_filename = fst (splitext (basename audio_filename))"

subsection \<open>Iterators\<close>

text \<open>
  An item of the stream is the tuple \<^verbatim>\<open>(audio_bytes, video_bytes, audio_filename)\<close> that
  \<^verbatim>\<open>to_tuple('audio', 'video', 'key')\<close> produces. The manifest collection is read through
  \<^verbatim>\<open>collection.mapping\<close> only, a dict from file id to the list of manifest indices of
  that file.

  An iterator is its state together with its \<^verbatim>\<open>__next__\<close>, which returns the value and the
  next state or raises; the end of the stream is the exception \<open>StopIteration\<close>. The
  stream of tar items that feeds \<^verbatim>\<open>_filter\<close> is finite: its state is the list of the
  items not yet read.
\<close>

type_synonym ('ab, 'vb) item = "'ab \<times> 'vb \<times> string"

type_synonym mapping = "string \<rightharpoonup> nat list"

text \<open>
  \<^verbatim>\<open>TarredAudioFilter.__next__\<close>: the \<^verbatim>\<open>while True\<close> loop reads the stream until an item
  whose file id is a key of the mapping; \<^verbatim>\<open>next(self.iterator)\<close> ends it with
  \<open>StopIteration\<close> when the stream is exhausted.
\<close>

fun filter_next :: "mapping \<Rightarrow> ('ab, 'vb) item list \<Rightarrow> error + (('ab, 'vb) item \<times> ('ab, 'vb) item list)" where
  "filter_next mapping [] = Inl StopIteration"
| "filter_next mapping ((audio_bytes, video_bytes, audio_filename) # iterator) =
     (let file_id = file_id_of audio_filename
      in if file_id \<in> dom mapping then Inr ((audio_bytes, video_bytes, audio_filename), iterator)
         else filter_next mapping iterator)"

text \<open>
  \<^verbatim>\<open>TarredAudioLoopOffsets\<close>: the fields of the object are the state. Its upstream
  iterator is any iterator, given by its \<^verbatim>\<open>__next__\<close> function \<open>nxt\<close> and held in the
  field \<open>iterator\<close>; in the dataset's pipeline it is the filter above.
\<close>

record ('ab, 'vb, 'it) loop_offsets =
  iterator :: 'it
  current_fn :: "string option"
  current_audio_bytes :: "'ab option"
  current_video_bytes :: "'vb option"
  offset_id :: nat

definition loop_offsets_init :: "'it \<Rightarrow> ('ab, 'vb, 'it) loop_offsets" where
  "loop_offsets_init it =
     \<lparr>iterator = it, current_fn = None, current_audio_bytes = None,
      current_video_bytes = None, offset_id = 0\<rparr>"

definition advance ::
  "('it \<Rightarrow> error + (('ab, 'vb) item \<times> 'it)) \<Rightarrow> ('ab, 'vb, 'it) loop_offsets
     \<Rightarrow> error + ('ab, 'vb, 'it) loop_offsets" where
  "advance nxt self =
     (case nxt (iterator self) of
        Inl e \<Rightarrow> Inl e
      | Inr ((audio_bytes, video_bytes, fn), it) \<Rightarrow>
          Inr (self\<lparr>iterator := it, current_audio_bytes := Some audio_bytes,
                     current_video_bytes := Some video_bytes, current_fn := Some fn,
                     offset_id := 0\<rparr>))"

definition output_of ::
  "('ab, 'vb, 'it) loop_offsets \<Rightarrow> 'ab option \<times> 'vb option \<times> string option \<times> nat" where
  "output_of self =
     (current_audio_bytes self, current_video_bytes self, current_fn self, offset_id self)"

definition loop_offsets_next ::
  "mapping \<Rightarrow> ('it \<Rightarrow> error + (('ab, 'vb) item \<times> 'it)) \<Rightarrow> ('ab, 'vb, 'it) loop_offsets
     \<Rightarrow> error + (('ab option \<times> 'vb option \<times> string option \<times> nat) \<times> ('ab, 'vb, 'it) loop_offsets)" where
  "loop_offsets_next mapping nxt self =
     (case current_fn self of
        None \<Rightarrow>
          (case advance nxt self of Inl e \<Rightarrow> Inl e | Inr self' \<Rightarrow> Inr (output_of self', self'))
      | Some fn \<Rightarrow>
          (case mapping fn of
             None \<Rightarrow> Inl (KeyError fn)
           | Some offset_list \<Rightarrow>
               if length offset_list = offset_id self + 1
               then (case advance nxt self of
                       Inl e \<Rightarrow> Inl e
                     | Inr self' \<Rightarrow> Inr (output_of self', self'))
               else (let self' = self\<lparr>offset_id := offset_id self + 1\<rparr>
                     in Inr (output_of self', self'))))"

text \<open>
  What a consumer sees of an iterator: the values of its first \<open>n\<close> calls of
  \<^verbatim>\<open>__next__\<close>, and the exception that ended the iteration if one of them raised.
\<close>

fun take_outputs :: "('s \<Rightarrow> error + ('o \<times> 's)) \<Rightarrow> nat \<Rightarrow> 's \<Rightarrow> 'o list \<times> error option" where
  "take_outputs step 0 s = ([], None)"
| "take_outputs step (Suc n) s =
     (case step s of
        Inl e \<Rightarrow> ([], Some e)
      | Inr (out, s') \<Rightarrow> (case take_outputs step n s' of (outs, e) \<Rightarrow> (out # outs, e)))"


subsection \<open>What the stages are expected to emit\<close>

text \<open>
  The items of the stream that have a manifest entry: those whose file id is a key of
  the mapping.
\<close>

definition in_manifest :: "mapping \<Rightarrow> ('ab, 'vb) item \<Rightarrow> bool" where
  "in_manifest mapping x = (case x of (audio_bytes, video_bytes, audio_filename) \<Rightarrow>
      file_id_of audio_filename \<in> dom mapping)"

text \<open>
  \<open>keyed\<close>: the filename of the item, as it is streamed, is itself a key of the mapping,
  with at least one offset. \<open>n_offsets\<close>: the number of offsets that the mapping lists under
  a filename. \<open>per_offset\<close>: for every item, in the order of the stream, one output for
  every offset listed under its filename, the offsets counted from 0. \<open>at_item\<close> is the
  state of \<^verbatim>\<open>TarredAudioLoopOffsets\<close> after it has returned the item \<open>x\<close> with the
  offset index \<open>i\<close>.
\<close>

definition keyed :: "mapping \<Rightarrow> ('ab, 'vb) item \<Rightarrow> bool" where
  "keyed mapping x = (case x of (audio_bytes, video_bytes, fn) \<Rightarrow>
      (case mapping fn of None \<Rightarrow> False | Some offset_list \<Rightarrow> offset_list \<noteq> []))"

definition n_offsets :: "mapping \<Rightarrow> string \<Rightarrow> nat" where
  "n_offsets mapping fn = (case mapping fn of None \<Rightarrow> 0 | Some offset_list \<Rightarrow> length offset_list)"

definition with_offsets ::
  "('ab, 'vb) item \<Rightarrow> nat list \<Rightarrow> ('ab option \<times> 'vb option \<times> string option \<times> nat) list" where
  "with_offsets x js = (case x of (audio_bytes, video_bytes, fn) \<Rightarrow>
      map (\<lambda>j. (Some audio_bytes, Some video_bytes, Some fn, j)) js)"

definition per_offset ::
  "mapping \<Rightarrow> ('ab, 'vb) item list \<Rightarrow> ('ab option \<times> 'vb option \<times> string option \<times> nat) list" where
  "per_offset mapping xs =
     concat (map (\<lambda>x. with_offsets x [0..<n_offsets mapping (snd (snd x))]) xs)"

definition at_item :: "'it \<Rightarrow> ('ab, 'vb) item \<Rightarrow> nat \<Rightarrow> ('ab, 'vb, 'it) loop_offsets" where
  "at_item it x i = (case x of (audio_bytes, video_bytes, fn) \<Rightarrow>
     \<lparr>iterator = it, current_fn = Some fn, current_audio_bytes = Some audio_bytes,
      current_video_bytes = Some video_bytes, offset_id = i\<rparr>)"

section \<open>Batch collation\<close>

subsection \<open>Samples\<close>

text \<open>
  A sample is a Python tuple \<^verbatim>\<open>(audio_sig, audio_sig_len, video_sig, video_sig_len,
  tokens_i, tokens_i_len)\<close>, followed by the sample id when the dataset returns one. The
  collate function checks how many elements the tuples have, so a sample of the model is
  a tuple of any length whose elements have the documented types:
  \<^item> \<open>Sample f extra\<close> has the six leading elements \<open>f\<close> and then the elements \<open>extra\<close>
    (the sample id first);
  \<^item> \<open>Short n\<close> has fewer than six elements (\<open>n\<close> of them, at most 5); the function
    reads none of them.
  A signal and its length may be \<^verbatim>\<open>None\<close>; a length is a 0-d integer tensor, its value
  an \<open>int\<close>; the tokens are a 1-d integer tensor. The integer tensors the samples bring
  (lengths, tokens) hold mathematical integers; the two places where the collate function
  itself converts a Python integer, the pad value of the tokens and the sample ids, are
  modelled with their ranges below. The element type of the signals is not modelled.
\<close>

record 'a fields =
  audio_sig :: "'a list option"
  audio_sig_len :: "int option"
  video_sig :: "'a video option"
  video_sig_len :: "int option"
  tokens_i :: "int list"
  tokens_i_len :: int

datatype 'a sample = Short nat | Sample (lead: "'a fields") (extra: "int list")

fun tuple_len :: "'a sample \<Rightarrow> nat" where
  "tuple_len (Short n) = min n 5"
| "tuple_len (Sample f ex) = 6 + length ex"

text \<open>
  \<^verbatim>\<open>packed_batch\<close>, the \<^verbatim>\<open>zip\<close> of all samples, is the transposed batch; \<^verbatim>\<open>zip\<close> stops at the
  shortest tuple, and gives nothing for an empty batch. \<open>packed_len\<close> is
  \<^verbatim>\<open>len(packed_batch)\<close>. When it is 6 or 7 every sample is a \<open>Sample\<close>, and column \<open>i\<close> of
  the packed batch is element \<open>i\<close> of every sample.
\<close>

fun packed_len :: "'a sample list \<Rightarrow> nat" where
  "packed_len [] = 0"
| "packed_len [b] = tuple_len b"
| "packed_len (b # bs) = min (tuple_len b) (packed_len bs)"

subsection \<open>The tensor operations\<close>

text \<open>Python's \<^verbatim>\<open>max\<close> of a sequence: a ValueError on an empty one.\<close>

fun py_max :: "int list \<Rightarrow> error + int" where
  "py_max [] = Inl (ValueError ''max() arg is an empty sequence'')"
| "py_max (x # xs) = Inr (fold max xs x)"

text \<open>
  \<^verbatim>\<open>max(lengths).item()\<close> and \<^verbatim>\<open>torch.stack(lengths)\<close> on a column of lengths: a
  \<^verbatim>\<open>None\<close> among tensors is a TypeError (the comparison of \<^verbatim>\<open>max\<close>, the argument check
  of \<^verbatim>\<open>stack\<close>).
\<close>

definition all_tensors :: "'b option list \<Rightarrow> error + 'b list" where
  "all_tensors xs = (case those xs of None \<Rightarrow> Inl TypeError | Some ys \<Rightarrow> Inr ys)"

definition max_item :: "int option list \<Rightarrow> error + int" where
  "max_item lengths = (case all_tensors lengths of Inl e \<Rightarrow> Inl e | Inr ls \<Rightarrow> py_max ls)"

text \<open>
  \<^verbatim>\<open>torch.stack\<close>: a RuntimeError on an empty list and when two tensors differ in shape;
  the stacked tensor is the list of its rows.
\<close>

fun stack :: "('t \<Rightarrow> 'sh) \<Rightarrow> 't list \<Rightarrow> error + 't list" where
  "stack shape [] = Inl RuntimeError"
| "stack shape (x # xs) =
     (if list_all (\<lambda>y. shape y = shape x) xs then Inr (x # xs) else Inl RuntimeError)"

definition stack_optional :: "('t \<Rightarrow> 'sh) \<Rightarrow> 't option list \<Rightarrow> error + 't list" where
  "stack_optional shape xs =
     (case all_tensors xs of Inl e \<Rightarrow> Inl e | Inr ts \<Rightarrow> stack shape ts)"

definition vshape :: "'a video \<Rightarrow> nat \<times> nat \<times> nat \<times> nat" where
  "vshape v = (length (frames v), vH v, vW v, vC v)"

text \<open>
  \<^verbatim>\<open>torch.nn.functional.pad(x, (0, n))\<close> on a 1-d tensor appends \<open>n\<close> entries of the fill
  value; \<^verbatim>\<open>pad(x, (0, 0, 0, 0, 0, 0, 0, n))\<close> on a 4-d tensor appends \<open>n\<close> zero entries
  along dimension 0. Both are called with \<open>n > 0\<close> only; on \<^verbatim>\<open>None\<close> they raise a
  TypeError.
\<close>

definition pad1 :: "'b list option \<Rightarrow> int \<Rightarrow> 'b \<Rightarrow> error + 'b list option" where
  "pad1 x n v = (case x of None \<Rightarrow> Inl TypeError | Some xs \<Rightarrow> Inr (Some (xs @ replicate (nat n) v)))"

definition pad4 :: "('a::zero) video option \<Rightarrow> int \<Rightarrow> error + 'a video option" where
  "pad4 x n =
     (case x of
        None \<Rightarrow> Inl TypeError
      | Some v \<Rightarrow>
          Inr (Some (v\<lparr>frames := frames v @ replicate (nat n) (zero_frame (vH v) (vW v) (vC v))\<rparr>)))"

subsection \<open>The collate function\<close>

text \<open>
  The body of the loop \<^verbatim>\<open>for b in batch\<close>, in the order of the source; the record
  \<open>collate_ctx\<close> holds the variables the loop reads and does not change. The unpacking of
  \<open>b\<close> takes seven elements when \<^verbatim>\<open>len(b) == 7\<close> and six otherwise, a ValueError when
  \<open>b\<close> has another number of elements.
\<close>

definition expects_msg :: string where
  "expects_msg = ''Expects 6 or 7 tensors in the batch!''"

fun unpack :: "'a sample \<Rightarrow> error + 'a fields" where
  "unpack (Short n) = Inl (ValueError ''not enough values to unpack (expected 6)'')"
| "unpack (Sample f ex) =
     (if length ex = 1 then Inr f
      else if length ex = 0 then Inr f
      else Inl (ValueError ''too many values to unpack (expected 6)''))"

definition item_of :: "int option \<Rightarrow> error + int" where
  "item_of l = (case l of None \<Rightarrow> Inl AttributeError | Some n \<Rightarrow> Inr n)"

definition pad_audio :: "int \<Rightarrow> ('a::zero) fields \<Rightarrow> error + 'a list option" where
  "pad_audio max_audio_len f =
     (case item_of (audio_sig_len f) of
        Inl e \<Rightarrow> Inl e
      | Inr len \<Rightarrow>
          if len < max_audio_len
          then pad1 (audio_sig f) (max_audio_len - len) 0
          else Inr (audio_sig f))"

definition pad_video :: "int \<Rightarrow> ('a::zero) fields \<Rightarrow> error + 'a video option" where
  "pad_video max_video_len f =
     (case item_of (video_sig_len f) of
        Inl e \<Rightarrow> Inl e
      | Inr len \<Rightarrow>
          if len < max_video_len
          then pad4 (video_sig f) (max_video_len - len)
          else Inr (video_sig f))"

text \<open>
  The tokens are padded by \<^verbatim>\<open>torch.nn.functional.pad(tokens_i, pad, value=pad_id)\<close>. The
  parameter \<^verbatim>\<open>value\<close> is a float: the Python integer \<^verbatim>\<open>pad_id\<close> is converted to a double,
  rounded to the nearest double, ties to the even significand of 53 bits (an
  OverflowError when the result is not a finite double), and the double is converted to
  the fill value of the int64 tensor (a RuntimeError outside the range of int64).
  \<open>bit_length\<close> is \<^verbatim>\<open>int.bit_length\<close>.
\<close>

fun bit_length :: "nat \<Rightarrow> nat" where
  "bit_length n = (if n = 0 then 0 else Suc (bit_length (n div 2)))"

declare bit_length.simps [simp del]

definition to_double_nat :: "nat \<Rightarrow> nat" where
  "to_double_nat n =
     (if n \<le> 2 ^ 53 then n
      else (let e = bit_length n - 53;
                q = n div 2 ^ e;
                r = n mod 2 ^ e;
                h = 2 ^ (e - 1)
            in (if r > h \<or> (r = h \<and> odd q) then q + 1 else q) * 2 ^ e))"

definition to_double :: "int \<Rightarrow> int" where
  "to_double i = (if i < 0 then - int (to_double_nat (nat (- i))) else int (to_double_nat (nat i)))"

definition fill_value :: "int \<Rightarrow> error + int" where
  "fill_value v =
     (let d = to_double v
      in if d \<le> - (2 ^ 1024) \<or> 2 ^ 1024 \<le> d then Inl OverflowError
         else if d < - (2 ^ 63) \<or> 2 ^ 63 \<le> d then Inl RuntimeError
         else Inr d)"

definition pad_tokens :: "int \<Rightarrow> int \<Rightarrow> 'a fields \<Rightarrow> error + int list" where
  "pad_tokens max_tokens_len pad_id f =
     (if tokens_i_len f < max_tokens_len
      then (case fill_value pad_id of
              Inl e \<Rightarrow> Inl e
            | Inr v \<Rightarrow> Inr (tokens_i f @ replicate (nat (max_tokens_len - tokens_i_len f)) v))
      else Inr (tokens_i f))"

record collate_ctx =
  ctx_has_audio :: bool
  ctx_max_audio_len :: int
  ctx_has_video :: bool
  ctx_max_video_len :: int
  ctx_max_tokens_len :: int
  ctx_pad_id :: int

definition append_audio ::
  "collate_ctx \<Rightarrow> ('a::zero) fields \<Rightarrow> 'a list option list \<Rightarrow> error + 'a list option list" where
  "append_audio c f audio_signal =
     (if ctx_has_audio c
      then (case pad_audio (ctx_max_audio_len c) f of
              Inl e \<Rightarrow> Inl e
            | Inr sig \<Rightarrow> Inr (audio_signal @ [sig]))
      else Inr audio_signal)"

definition append_video ::
  "collate_ctx \<Rightarrow> ('a::zero) fields \<Rightarrow> 'a video option list \<Rightarrow> error + 'a video option list" where
  "append_video c f video_signal =
     (if ctx_has_video c
      then (case pad_video (ctx_max_video_len c) f of
              Inl e \<Rightarrow> Inl e
            | Inr sig \<Rightarrow> Inr (video_signal @ [sig]))
      else Inr video_signal)"

definition append_tokens ::
  "collate_ctx \<Rightarrow> 'a fields \<Rightarrow> int list list \<Rightarrow> error + int list list" where
  "append_tokens c f tokens =
     (case pad_tokens (ctx_max_tokens_len c) (ctx_pad_id c) f of
        Inl e \<Rightarrow> Inl e
      | Inr row \<Rightarrow> Inr (tokens @ [row]))"

fun collate_loop ::
  "collate_ctx \<Rightarrow> ('a::zero) sample list
     \<Rightarrow> 'a list option list \<times> 'a video option list \<times> int list list
     \<Rightarrow> error + ('a list option list \<times> 'a video option list \<times> int list list)" where
  "collate_loop c [] acc = Inr acc"
| "collate_loop c (b # batch) (audio_signal, video_signal, tokens) =
     (case unpack b of
        Inl e \<Rightarrow> Inl e
      | Inr f \<Rightarrow>
          (case append_audio c f audio_signal of
             Inl e \<Rightarrow> Inl e
           | Inr audio_signal' \<Rightarrow>
               (case append_video c f video_signal of
                  Inl e \<Rightarrow> Inl e
                | Inr video_signal' \<Rightarrow>
                    (case append_tokens c f tokens of
                       Inl e \<Rightarrow> Inl e
                     | Inr tokens' \<Rightarrow>
                         collate_loop c batch (audio_signal', video_signal', tokens')))))"

text \<open>
  The value returned: the six tensors, and the tensor of the sample ids when the packed
  batch has a seventh column. \<^verbatim>\<open>torch.tensor(sample_ids, dtype=torch.int32)\<close> raises a
  RuntimeError for an id outside the range of int32.
\<close>

definition int32_tensor :: "int list \<Rightarrow> error + int list" where
  "int32_tensor xs =
     (if list_all (\<lambda>x. - (2 ^ 31) \<le> x \<and> x < 2 ^ 31) xs then Inr xs else Inl RuntimeError)"

definition convert_sample_ids :: "int list option \<Rightarrow> error + int list option" where
  "convert_sample_ids sample_ids =
     (case sample_ids of
        None \<Rightarrow> Inr None
      | Some ids \<Rightarrow> (case int32_tensor ids of Inl e \<Rightarrow> Inl e | Inr t \<Rightarrow> Inr (Some t)))"

record 'a collated =
  out_audio_signal :: "'a list list option"
  out_audio_lengths :: "int list option"
  out_video_signal :: "'a video list option"
  out_video_lengths :: "int list option"
  out_tokens :: "int list list"
  out_tokens_lengths :: "int list"
  out_sample_ids :: "int list option"

definition stack_modality ::
  "bool \<Rightarrow> ('t \<Rightarrow> 'sh) \<Rightarrow> 't option list \<Rightarrow> int option list
     \<Rightarrow> error + ('t list option \<times> int list option)" where
  "stack_modality has shape signal lengths =
     (if has
      then (case stack_optional shape signal of
              Inl e \<Rightarrow> Inl e
            | Inr signal' \<Rightarrow>
                (case all_tensors lengths of
                   Inl e \<Rightarrow> Inl e
                 | Inr lengths' \<Rightarrow> Inr (Some signal', Some lengths')))
      else Inr (None, None))"

definition audio_video_speech_collate_fn ::
  "('a::zero) sample list \<Rightarrow> int \<Rightarrow> error + 'a collated" where
  "audio_video_speech_collate_fn batch pad_id =
     (if packed_len batch = 7 \<or> packed_len batch = 6 then
        (let audio_lengths = map (\<lambda>b. audio_sig_len (lead b)) batch;
             video_lengths = map (\<lambda>b. video_sig_len (lead b)) batch;
             tokens_lengths = map (\<lambda>b. tokens_i_len (lead b)) batch;
             sample_ids = (if packed_len batch = 7 then Some (map (\<lambda>b. hd (extra b)) batch)
                           else None);
             has_audio = (hd audio_lengths \<noteq> None);
             has_video = (hd video_lengths \<noteq> None)
         in case (if has_audio then max_item audio_lengths else Inr 0) of
              Inl e \<Rightarrow> Inl e
            | Inr max_audio_len \<Rightarrow>
         (case (if has_video then max_item video_lengths else Inr 0) of
              Inl e \<Rightarrow> Inl e
            | Inr max_video_len \<Rightarrow>
         (case py_max tokens_lengths of
              Inl e \<Rightarrow> Inl e
            | Inr max_tokens_len \<Rightarrow>
         (case collate_loop
                 \<lparr>ctx_has_audio = has_audio, ctx_max_audio_len = max_audio_len,
                  ctx_has_video = has_video, ctx_max_video_len = max_video_len,
                  ctx_max_tokens_len = max_tokens_len, ctx_pad_id = pad_id\<rparr>
                 batch ([], [], []) of
              Inl e \<Rightarrow> Inl e
            | Inr (audio_signal, video_signal, tokens) \<Rightarrow>
         (case stack_modality has_audio length audio_signal audio_lengths of
              Inl e \<Rightarrow> Inl e
            | Inr (audio_signal', audio_lengths') \<Rightarrow>
         (case stack_modality has_video vshape video_signal video_lengths of
              Inl e \<Rightarrow> Inl e
            | Inr (video_signal', video_lengths') \<Rightarrow>
         (case stack length tokens of
              Inl e \<Rightarrow> Inl e
            | Inr tokens' \<Rightarrow>
         (case convert_sample_ids sample_ids of
              Inl e \<Rightarrow> Inl e
            | Inr sample_ids' \<Rightarrow>
                Inr \<lparr>out_audio_signal = audio_signal', out_audio_lengths = audio_lengths',
                     out_video_signal = video_signal', out_video_lengths = video_lengths',
                     out_tokens = tokens', out_tokens_lengths = tokens_lengths,
                     out_sample_ids = sample_ids'\<rparr>))))))))
      else Inl (ValueError expects_msg))"

subsection \<open>What the collate function is expected to return\<close>

text \<open>
  The vocabulary of the claims about batches: a sample tuple of 6 or 7 elements; the
  leading dimension of each tensor of a sample; a sample whose signals are present and
  whose length entries are these leading dimensions; a batch whose video tensors have
  one frame shape \<open>(H, W, C)\<close>; the maximum of a quantity over the batch.
\<close>

definition six_or_seven :: "'a sample \<Rightarrow> bool" where
  "six_or_seven b = (tuple_len b = 6 \<or> tuple_len b = 7)"

definition audio_length :: "'a sample \<Rightarrow> int" where
  "audio_length b = (case audio_sig (lead b) of None \<Rightarrow> 0 | Some a \<Rightarrow> int (length a))"

definition video_length :: "'a sample \<Rightarrow> int" where
  "video_length b = (case video_sig (lead b) of None \<Rightarrow> 0 | Some v \<Rightarrow> int (length (frames v)))"

definition token_length :: "'a sample \<Rightarrow> int" where
  "token_length b = int (length (tokens_i (lead b)))"

definition lengths_match :: "'a sample \<Rightarrow> bool" where
  "lengths_match b =
     (audio_sig (lead b) \<noteq> None \<and> audio_sig_len (lead b) = Some (audio_length b) \<and>
      video_sig (lead b) \<noteq> None \<and> video_sig_len (lead b) = Some (video_length b) \<and>
      tokens_i_len (lead b) = token_length b)"

definition frame_shape :: "'a sample \<Rightarrow> nat \<times> nat \<times> nat" where
  "frame_shape b = (case video_sig (lead b) of None \<Rightarrow> (0, 0, 0) | Some v \<Rightarrow> (vH v, vW v, vC v))"

definition same_frame_shape :: "'a sample list \<Rightarrow> bool" where
  "same_frame_shape batch = list_all (\<lambda>b. frame_shape b = frame_shape (hd batch)) batch"

definition max_of :: "('b \<Rightarrow> int) \<Rightarrow> 'b list \<Rightarrow> int" where
  "max_of f xs = Max (set (map f xs))"

text \<open>The sample ids of a batch fit in a signed 32-bit integer.\<close>

definition sample_ids_fit :: "'a sample list \<Rightarrow> bool" where
  "sample_ids_fit batch =
     list_all (\<lambda>b. case extra b of [] \<Rightarrow> True | i # _ \<Rightarrow> - (2 ^ 31) \<le> i \<and> i < 2 ^ 31) batch"




text \<open>A sample without its audio entries, and without its video entries.\<close>

fun drop_audio :: "'a sample \<Rightarrow> 'a sample" where
  "drop_audio (Short n) = Short n"
| "drop_audio (Sample f ex) = Sample (f\<lparr>audio_sig := None, audio_sig_len := None\<rparr>) ex"

fun drop_video :: "'a sample \<Rightarrow> 'a sample" where
  "drop_video (Short n) = Short n"
| "drop_video (Sample f ex) = Sample (f\<lparr>video_sig := None, video_sig_len := None\<rparr>) ex"

subsection \<open>Example samples\<close>

text \<open>
  \<open>sample_a\<close> has six elements and \<open>sample_b\<close> seven; \<open>sample_tall\<close> has frames of
  another height; \<open>sample_no_audio\<close> has no audio; \<open>sample_long\<close> has eight elements;
  \<open>sample_big_id\<close> is \<open>sample_b\<close> with the sample id \<open>2 ^ 31\<close>.
\<close>

definition sample_a :: "int sample" where
  "sample_a = Sample \<lparr>audio_sig = Some [1, 2, 3], audio_sig_len = Some 3,
       video_sig = Some \<lparr>vH = 1, vW = 1, vC = 1, frames = [[[[5]]]]\<rparr>, video_sig_len = Some 1,
       tokens_i = [7, 8], tokens_i_len = 2\<rparr> []"

definition sample_b :: "int sample" where
  "sample_b = Sample \<lparr>audio_sig = Some [4], audio_sig_len = Some 1,
       video_sig = Some \<lparr>vH = 1, vW = 1, vC = 1, frames = [[[[5]]], [[[6]]]]\<rparr>, video_sig_len = Some 2,
       tokens_i = [9], tokens_i_len = 1\<rparr> [4]"

definition sample_big_id :: "int sample" where
  "sample_big_id = Sample \<lparr>audio_sig = Some [4], audio_sig_len = Some 1,
       video_sig = Some \<lparr>vH = 1, vW = 1, vC = 1, frames = [[[[5]]], [[[6]]]]\<rparr>, video_sig_len = Some 2,
       tokens_i = [9], tokens_i_len = 1\<rparr> [2147483648]"

definition sample_tall :: "int sample" where
  "sample_tall = Sample \<lparr>audio_sig = Some [4], audio_sig_len = Some 1,
       video_sig = Some \<lparr>vH = 2, vW = 1, vC = 1, frames = [[[[5]], [[6]]]]\<rparr>, video_sig_len = Some 1,
       tokens_i = [9], tokens_i_len = 1\<rparr> []"

definition sample_no_audio :: "int sample" where
  "sample_no_audio = Sample \<lparr>audio_sig = None, audio_sig_len = None,
       video_sig = Some \<lparr>vH = 1, vW = 1, vC = 1, frames = [[[[5]]]]\<rparr>, video_sig_len = Some 1,
       tokens_i = [9], tokens_i_len = 1\<rparr> []"

definition sample_long :: "int sample" where
  "sample_long = Sample \<lparr>audio_sig = Some [4], audio_sig_len = Some 1,
       video_sig = Some \<lparr>vH = 1, vW = 1, vC = 1, frames = [[[[5]]]]\<rparr>, video_sig_len = Some 1,
       tokens_i = [9], tokens_i_len = 1\<rparr> [4, 5]"

section \<open>Alignment: proofs\<close>

lemma new_zeros4_nonneg: "0 \<le> n \<Longrightarrow> new_zeros4 n H W C = Inr (replicate (nat n) (zero_frame H W C))"
  by (simp add: new_zeros4_def)

lemma new_zeros_nonneg: "0 \<le> n \<Longrightarrow> new_zeros n = Inr (replicate (nat n) 0)"
  by (simp add: new_zeros_def)

lemma padding_left_nonneg: "0 \<le> p \<Longrightarrow> 0 \<le> padding_left p"
  by (simp add: padding_left_def)

lemma padding_right_nonneg: "0 \<le> p \<Longrightarrow> 0 \<le> padding_right p"
  by (simp add: padding_right_def)

lemma padding_left_right_sum: "padding_left p + padding_right p = p"
  unfolding padding_left_def padding_right_def by presburger

lemma audio_padding_pos:
  assumes "video_padding Ta Tv < 0"
  shows "0 < audio_padding Ta Tv"
proof -
  define q where "q = Ta div 640"
  define r where "r = Ta mod 640"
  have Ta: "Ta = 640 * q + r" unfolding q_def r_def by simp
  have r: "r < 640" unfolding r_def by simp
  from assms have "q + 1 \<le> Tv - 1"
    unfolding video_padding_def q_def by simp
  with Ta r show ?thesis unfolding audio_padding_def by simp
qed

lemma align_video_branch:
  assumes "0 \<le> video_padding (int (length a)) (int (length (frames v)))"
  shows "align_audio_and_video a v =
           Inr (a, v\<lparr>frames :=
                  replicate (nat (padding_left (video_padding (int (length a)) (int (length (frames v))))))
                    (zero_frame (vH v) (vW v) (vC v))
                  @ frames v
                  @ replicate (nat (padding_right (video_padding (int (length a)) (int (length (frames v))))))
                    (zero_frame (vH v) (vW v) (vC v))\<rparr>)"
  using assms
  by (simp add: align_audio_and_video_def Let_def new_zeros4_nonneg
        padding_left_nonneg padding_right_nonneg)



lemma align_audio_branch:
  assumes "video_padding (int (length a)) (int (length (frames v))) < 0"
  shows "align_audio_and_video a v =
           Inr (replicate (nat (padding_left (audio_padding (int (length a)) (int (length (frames v)))))) 0
                @ a
                @ replicate (nat (padding_right (audio_padding (int (length a)) (int (length (frames v)))))) 0,
                v)"
proof -
  have "0 < audio_padding (int (length a)) (int (length (frames v)))"
    using assms by (rule audio_padding_pos)
  then have "0 \<le> audio_padding (int (length a)) (int (length (frames v)))" by simp
  then show ?thesis using assms
    by (simp add: align_audio_and_video_def Let_def new_zeros_nonneg
        padding_left_nonneg padding_right_nonneg)
qed

lemma length_padded:
  assumes "0 \<le> p"
  shows "int (length (replicate (nat (padding_left p)) z @ xs @ replicate (nat (padding_right p)) z))
           = int (length xs) + p"
proof -
  have "int (nat (padding_left p)) = padding_left p"
    using assms by (simp add: padding_left_nonneg)
  moreover have "int (nat (padding_right p)) = padding_right p"
    using assms by (simp add: padding_right_nonneg)
  ultimately show ?thesis using padding_left_right_sum [of p] by simp
qed

lemma video_branch_count:
  assumes "0 \<le> video_padding Ta Tv"
  shows "Tv + video_padding Ta Tv = Ta div 640 + 1"
  by (simp add: video_padding_def)

lemma audio_branch_length: "Ta + audio_padding Ta Tv = (Tv - 1) * 640"
  by (simp add: audio_padding_def)

lemma align_video_branch_length:
  assumes "0 \<le> video_padding (int (length a)) (int (length (frames v)))"
  obtains v' where "align_audio_and_video a v = Inr (a, v')"
    and "int (length (frames v')) = int (length a) div 640 + 1"
proof -
  let ?p = "video_padding (int (length a)) (int (length (frames v)))"
  let ?z = "zero_frame (vH v) (vW v) (vC v)"
  let ?v' = "v\<lparr>frames := replicate (nat (padding_left ?p)) ?z @ frames v
                              @ replicate (nat (padding_right ?p)) ?z\<rparr>"
  have "int (length (frames ?v')) = int (length (frames v)) + ?p"
    using length_padded [OF assms] by simp
  then have "int (length (frames ?v')) = int (length a) div 640 + 1"
    using video_branch_count [OF assms] by simp
  with align_video_branch [OF assms] that show thesis by blast
qed

lemma align_audio_branch_length:
  assumes "video_padding (int (length a)) (int (length (frames v))) < 0"
  obtains a' where "align_audio_and_video a v = Inr (a', v)"
    and "int (length a') = (int (length (frames v)) - 1) * 640"
    and "length a < length a'"
proof -
  let ?p = "audio_padding (int (length a)) (int (length (frames v)))"
  let ?a' = "replicate (nat (padding_left ?p)) 0 @ a @ replicate (nat (padding_right ?p)) 0"
  have pos: "0 < ?p" using assms by (rule audio_padding_pos)
  then have nn: "0 \<le> ?p" by simp
  have len: "int (length ?a') = int (length a) + ?p"
    using length_padded [OF nn] by simp
  then have "int (length ?a') = (int (length (frames v)) - 1) * 640"
    using audio_branch_length [of "int (length a)" "int (length (frames v))"] by simp
  moreover have "length a < length ?a'" using len pos by linarith
  ultimately show thesis using align_audio_branch [OF assms] that by blast
qed

text \<open>
  Claim C1. For every audio signal and every video signal, \<^verbatim>\<open>align_audio_and_video\<close>
  returns, and the lengths \<open>(Ta', Tv')\<close> of the signals it returns satisfy
  \<open>Tv' = Ta' // 640 + 1\<close>, in the branch that pads the video and in the branch that pads
  the audio. (The claim asks for \<open>Tv \<ge> 1\<close>; the property needs no such condition.)
\<close>

theorem align_lengths:
  "\<exists>a' v'. align_audio_and_video a v = Inr (a', v') \<and>
      int (length (frames v')) = int (length a') div 640 + 1"
proof (cases "0 \<le> video_padding (int (length a)) (int (length (frames v)))")
  case True
  then show ?thesis by (rule align_video_branch_length) blast
next
  case False
  then have "video_padding (int (length a)) (int (length (frames v))) < 0" by simp
  then obtain a' where "align_audio_and_video a v = Inr (a', v)"
    and "int (length a') = (int (length (frames v)) - 1) * 640"
    by (rule align_audio_branch_length)
  then show ?thesis by simp
qed

theorem align_lengths_witness:
  "\<exists>a' v'. align_audio_and_video [1, 2, 3 :: int]
             \<lparr>vH = 1, vW = 1, vC = 1, frames = [[[[5]]], [[[6]]]]\<rparr> = Inr (a', v') \<and>
      int (length (frames v')) = int (length a') div 640 + 1"
  by (rule align_lengths)

lemma padding_right_ceil: "padding_right p = ceil_div p 2"
  unfolding padding_right_def ceil_div_def by presburger

lemma halves_floor_ceil: "floor_ceil_halves p (padding_left p) (padding_right p)"
  unfolding floor_ceil_halves_def padding_right_ceil
  unfolding padding_left_def ceil_div_def by presburger

lemma floor_succ_eq_ceil: "(Ta div 640 + 1 = ceil_div Ta 640) = (\<not> 640 dvd Ta)"
  by (simp add: ceil_div_def zdiv_zminus1_eq_if dvd_eq_mod_eq_0)

text \<open>
  Claim C2 says that the video-padding branch leaves \<open>ceil(Ta / 640)\<close> frames. It leaves
  \<open>Ta // 640 + 1\<close> frames, one more than \<open>ceil(Ta / 640)\<close> when 640 divides \<open>Ta\<close>: an
  audio signal of 640 samples with a video of one frame takes the video-padding branch
  and comes back with two frames, and \<open>ceil(640 / 640) = 1\<close>.
\<close>

theorem align_video_count_not_ceil:
  "0 \<le> video_padding (int (length (replicate 640 (0::int)))) (int (length [[[[5::int]]]]))
   \<and> align_audio_and_video (replicate 640 (0::int)) \<lparr>vH = 1, vW = 1, vC = 1, frames = [[[[5]]]]\<rparr>
       = Inr (replicate 640 0, \<lparr>vH = 1, vW = 1, vC = 1, frames = [[[[5]]], [[[0]]]]\<rparr>)
   \<and> int (length [[[[5::int]]], [[[0]]]]) \<noteq> ceil_div (int (length (replicate 640 (0::int)))) 640"
  by (simp add: align_audio_and_video_def video_padding_def padding_left_def padding_right_def
      new_zeros4_def zero_frame_def ceil_div_def)

text \<open>
  Claim C2, amended. \<^verbatim>\<open>align_audio_and_video\<close> returns. When it takes the video-padding
  branch (\<open>Ta // 640 + 1 - Tv \<ge> 0\<close>) the video it returns has \<open>Ta // 640 + 1\<close> frames,
  which is \<open>ceil(Ta / 640)\<close> exactly when 640 does not divide \<open>Ta\<close>. Otherwise the video
  is returned as it was and the audio is extended, to \<open>(Tv - 1) * 640\<close> samples, more
  than it had.
\<close>

theorem align_video_count:
  "\<exists>a' v'. align_audio_and_video a v = Inr (a', v') \<and>
     (if 0 \<le> video_padding (int (length a)) (int (length (frames v)))
      then int (length (frames v')) = int (length a) div 640 + 1 \<and>
           (int (length (frames v')) = ceil_div (int (length a)) 640) = (\<not> 640 dvd int (length a))
      else v' = v \<and> length a < length a' \<and>
           int (length a') = (int (length (frames v)) - 1) * 640)"
proof (cases "0 \<le> video_padding (int (length a)) (int (length (frames v)))")
  case True
  then obtain v' where eq: "align_audio_and_video a v = Inr (a, v')"
    and len: "int (length (frames v')) = int (length a) div 640 + 1"
    by (rule align_video_branch_length)
  have "(int (length (frames v')) = ceil_div (int (length a)) 640) = (\<not> 640 dvd int (length a))"
    unfolding len by (rule floor_succ_eq_ceil)
  with eq len True show ?thesis by simp
next
  case False
  then have "video_padding (int (length a)) (int (length (frames v))) < 0" by simp
  then obtain a' where "align_audio_and_video a v = Inr (a', v)"
    and "int (length a') = (int (length (frames v)) - 1) * 640"
    and "length a < length a'"
    by (rule align_audio_branch_length)
  with False show ?thesis by simp
qed

theorem align_video_count_witness:
  "\<exists>a' v'. align_audio_and_video (replicate 641 (0::int))
               \<lparr>vH = 1, vW = 1, vC = 1, frames = [[[[5]]]]\<rparr> = Inr (a', v') \<and>
      int (length (frames v')) = 2 \<and> ceil_div 641 640 = 2"
  using align_video_count [of "replicate 641 (0::int)" "\<lparr>vH = 1, vW = 1, vC = 1, frames = [[[[5]]]]\<rparr>"]
  by (simp add: video_padding_def ceil_div_def)

text \<open>
  Claim C3. In both branches of \<^verbatim>\<open>align_audio_and_video\<close> the padded signal is the input
  between \<open>padding_left p\<close> zero entries on the left and \<open>padding_right p\<close> on the right,
  where \<open>p \<ge> 0\<close> is the pad count of the branch, the left pad is \<open>floor(p / 2)\<close>, the
  right pad is \<open>ceil(p / 2)\<close>, the two add up to \<open>p\<close>, and they differ by at most one,
  exactly when \<open>p\<close> is odd.
\<close>

theorem align_split_halves:
  "\<exists>a' v'. align_audio_and_video a v = Inr (a', v') \<and>
     (if 0 \<le> video_padding (int (length a)) (int (length (frames v)))
      then (let p = video_padding (int (length a)) (int (length (frames v)));
                z = zero_frame (vH v) (vW v) (vC v)
            in frames v' =
                 replicate (nat (padding_left p)) z @ frames v @ replicate (nat (padding_right p)) z
               \<and> floor_ceil_halves p (padding_left p) (padding_right p))
      else (let p = audio_padding (int (length a)) (int (length (frames v)))
            in 0 \<le> p \<and>
               a' = replicate (nat (padding_left p)) 0 @ a @ replicate (nat (padding_right p)) 0
               \<and> floor_ceil_halves p (padding_left p) (padding_right p)))"
proof (cases "0 \<le> video_padding (int (length a)) (int (length (frames v)))")
  case True
  show ?thesis
    using True by (simp add: align_video_branch [OF True] halves_floor_ceil Let_def)
next
  case False
  then have neg: "video_padding (int (length a)) (int (length (frames v))) < 0" by simp
  have nn: "0 \<le> audio_padding (int (length a)) (int (length (frames v)))"
    using audio_padding_pos [OF neg] by simp
  show ?thesis
    using False nn by (simp add: align_audio_branch [OF neg] halves_floor_ceil Let_def)
qed

theorem align_split_halves_witness:
  "\<exists>a' v'. align_audio_and_video (replicate 2000 (0::int))
               \<lparr>vH = 1, vW = 1, vC = 1, frames = [[[[5]]]]\<rparr> = Inr (a', v') \<and>
      frames v' = [[[[0]]], [[[5]]], [[[0]]], [[[0]]]] \<and> floor_ceil_halves 3 1 2"
  using align_split_halves [of "replicate 2000 (0::int)" "\<lparr>vH = 1, vW = 1, vC = 1, frames = [[[[5]]]]\<rparr>"]
  by (simp add: video_padding_def padding_left_def padding_right_def zero_frame_def Let_def
       numeral_2_eq_2)

text \<open>
  Claim C4. \<^verbatim>\<open>align_audio_and_video\<close> changes at most one of the two signals: when
  \<open>Ta // 640 + 1 \<ge> Tv\<close> the video is padded with zero frames and the audio is returned
  as it was; otherwise the audio is padded with zeros and the video is returned as it
  was.
\<close>

theorem align_one_modality:
  "\<exists>a' v'. align_audio_and_video a v = Inr (a', v') \<and>
     (if int (length (frames v)) \<le> int (length a) div 640 + 1
      then a' = a \<and>
           (\<exists>l r. v' = v\<lparr>frames := replicate l (zero_frame (vH v) (vW v) (vC v)) @ frames v
                                    @ replicate r (zero_frame (vH v) (vW v) (vC v))\<rparr>)
      else v' = v \<and> (\<exists>l r. a' = replicate l 0 @ a @ replicate r 0))"
proof (cases "0 \<le> video_padding (int (length a)) (int (length (frames v)))")
  case True
  then have c: "int (length (frames v)) \<le> int (length a) div 640 + 1"
    by (simp add: video_padding_def)
  show ?thesis
    unfolding align_video_branch [OF True] using c by auto
next
  case False
  then have neg: "video_padding (int (length a)) (int (length (frames v))) < 0" by simp
  then have c: "\<not> int (length (frames v)) \<le> int (length a) div 640 + 1"
    by (simp add: video_padding_def)
  show ?thesis
    unfolding align_audio_branch [OF neg] using c by auto
qed

theorem align_one_modality_witness:
  "\<exists>a' v'. align_audio_and_video [1, 2, 3 :: int]
               \<lparr>vH = 1, vW = 1, vC = 1, frames = [[[[5]]], [[[6]]]]\<rparr> = Inr (a', v') \<and>
      v' = \<lparr>vH = 1, vW = 1, vC = 1, frames = [[[[5]]], [[[6]]]]\<rparr> \<and>
      (\<exists>l r. a' = replicate l 0 @ [1, 2, 3] @ replicate r 0)"
  using align_one_modality [of "[1, 2, 3 :: int]" "\<lparr>vH = 1, vW = 1, vC = 1, frames = [[[[5]]], [[[6]]]]\<rparr>"]
  by simp

section \<open>The streaming stages: proofs\<close>

lemma filter_next_Cons:
  "filter_next mapping (x # xs) =
     (if in_manifest mapping x then Inr (x, xs) else filter_next mapping xs)"
  by (cases x) (simp add: in_manifest_def)

lemma filter_next_exhausted:
  "filter (in_manifest mapping) xs = [] \<Longrightarrow> filter_next mapping xs = Inl StopIteration"
proof (induction xs)
  case Nil
  show ?case by simp
next
  case (Cons x xs)
  then show ?case by (simp add: filter_next_Cons split: if_splits)
qed

lemma filter_next_first:
  "filter (in_manifest mapping) xs = y # ys \<Longrightarrow>
     \<exists>rest. filter_next mapping xs = Inr (y, rest) \<and> filter (in_manifest mapping) rest = ys"
proof (induction xs)
  case Nil
  then show ?case by simp
next
  case (Cons x xs)
  then show ?case by (simp add: filter_next_Cons split: if_splits)
qed

text \<open>
  Claim C6. For every stream of tar items, \<^verbatim>\<open>_filter\<close> emits exactly the items whose file
  id (the basename without its extension) is a key of the mapping, in the order of the
  stream: the first \<open>n\<close> values of its \<^verbatim>\<open>__next__\<close> are the first \<open>n\<close> such items. The
  other items are dropped, and the only exception is the \<open>StopIteration\<close> that ends the
  stream after the last item emitted.
\<close>

theorem filter_emits_subsequence:
  "take_outputs (filter_next mapping) n items =
     (take n (filter (in_manifest mapping) items),
      if length (filter (in_manifest mapping) items) < n then Some StopIteration else None)"
proof (induction n arbitrary: items)
  case 0
  show ?case by simp
next
  case (Suc n)
  show ?case
  proof (cases "filter (in_manifest mapping) items")
    case Nil
    then have "filter_next mapping items = Inl StopIteration"
      by (rule filter_next_exhausted)
    with Nil show ?thesis by simp
  next
    case (Cons y ys)
    then obtain rest where "filter_next mapping items = Inr (y, rest)"
      and "filter (in_manifest mapping) rest = ys"
      using filter_next_first by blast
    with Cons Suc.IH [of rest] show ?thesis by simp
  qed
qed

theorem filter_emits_subsequence_witness:
  "take_outputs (filter_next [''a'' \<mapsto> [0], ''b'' \<mapsto> [1, 2]]) 5
       [(1::nat, 10::nat, ''d/a.wav''), (2, 20, ''c''), (3, 30, ''b'')]
     = ([(1, 10, ''d/a.wav''), (3, 30, ''b'')], Some StopIteration)"
  using filter_emits_subsequence [of "[''a'' \<mapsto> [0], ''b'' \<mapsto> [1, 2]]" 5 
       "[(1::nat, 10::nat, ''d/a.wav''), (2, 20, ''c''), (3, 30, ''b'')]"]
  by (simp add: in_manifest_def file_id_of_def basename_def splitext_def rfind_def Let_def)

text \<open>
  Claim C5 says that \<^verbatim>\<open>_loop_offsets\<close> yields one output per manifest offset for every
  item the filter emits, the offsets being those of the item's file id.
  \<^verbatim>\<open>__next__\<close> looks the offsets up under \<^verbatim>\<open>self.current_fn\<close>, the filename as it is
  streamed, where \<^verbatim>\<open>_filter\<close> and \<^verbatim>\<open>_build_sample\<close> look them up under the file id.
  For the stream of the two items \<open>d/a\<close> and \<open>b\<close> and a mapping with one offset for each
  of the file ids \<open>a\<close> and \<open>b\<close>: the filter emits both items, the file id of \<open>d/a\<close> has
  one offset, and the loop yields the first item with the offset index 0 and then
  raises \<open>KeyError\<close>, where the claim has it advance to the second item.
\<close>

theorem loop_offsets_raw_key:
  "take_outputs (filter_next [''a'' \<mapsto> [0], ''b'' \<mapsto> [1]]) 3
       [(1::nat, 10::nat, ''d/a''), (2, 20, ''b'')]
     = ([(1, 10, ''d/a''), (2, 20, ''b'')], Some StopIteration)
   \<and> [''a'' \<mapsto> [0::nat], ''b'' \<mapsto> [1]] (file_id_of ''d/a'') = Some [0]
   \<and> take_outputs (loop_offsets_next [''a'' \<mapsto> [0], ''b'' \<mapsto> [1]]
                      (filter_next [''a'' \<mapsto> [0], ''b'' \<mapsto> [1]])) 3
       (loop_offsets_init [(1::nat, 10::nat, ''d/a''), (2, 20, ''b'')])
     = ([(Some 1, Some 10, Some ''d/a'', 0)], Some (KeyError ''d/a''))"
  by (simp add: file_id_of_def basename_def splitext_def rfind_def Let_def
      loop_offsets_next_def loop_offsets_init_def advance_def output_of_def numeral_3_eq_3)

lemma advance_at:
  "nxt it = Inr (y, it') \<Longrightarrow> advance nxt (at_item it x i) = Inr (at_item it' y 0)"
  by (cases x, cases y) (simp add: advance_def at_item_def)

lemma advance_init:
  "nxt it = Inr (y, it') \<Longrightarrow> advance nxt (loop_offsets_init it) = Inr (at_item it' y 0)"
  by (cases y) (simp add: advance_def at_item_def loop_offsets_init_def)

lemma advance_stop:
  "nxt (iterator self) = Inl e \<Longrightarrow> advance nxt self = Inl e"
  by (simp add: advance_def)

lemma output_at: "[output_of (at_item it x i)] = with_offsets x [i]"
  by (cases x) (simp add: output_of_def at_item_def with_offsets_def)

lemma iterator_at [simp]: "iterator (at_item it x i) = it"
  by (cases x) (simp add: at_item_def)

lemma next_more:
  assumes "Suc i < n_offsets mapping (snd (snd x))"
  shows "loop_offsets_next mapping nxt (at_item it x i)
           = Inr (output_of (at_item it x (Suc i)), at_item it x (Suc i))"
  using assms
  by (cases x) (auto simp: loop_offsets_next_def at_item_def n_offsets_def Let_def
        split: option.splits)

lemma next_last:
  assumes "Suc i = n_offsets mapping (snd (snd x))"
  shows "loop_offsets_next mapping nxt (at_item it x i)
           = (case advance nxt (at_item it x i) of
                Inl e \<Rightarrow> Inl e | Inr self' \<Rightarrow> Inr (output_of self', self'))"
  using assms
  by (cases x) (auto simp: loop_offsets_next_def at_item_def n_offsets_def
        split: option.splits)

lemma next_init:
  "loop_offsets_next mapping nxt (loop_offsets_init it)
     = (case advance nxt (loop_offsets_init it) of
          Inl e \<Rightarrow> Inl e | Inr self' \<Rightarrow> Inr (output_of self', self'))"
  by (simp add: loop_offsets_next_def loop_offsets_init_def)

lemma keyed_n_offsets: "keyed mapping x \<Longrightarrow> 0 < n_offsets mapping (snd (snd x))"
  by (cases x) (auto simp: keyed_def n_offsets_def split: option.splits)

lemma per_offset_Cons:
  "0 < n_offsets mapping (snd (snd x)) \<Longrightarrow>
   per_offset mapping (x # xs) =
     with_offsets x [0] @ with_offsets x [Suc 0..<n_offsets mapping (snd (snd x))]
       @ per_offset mapping xs"
proof -
  assume "0 < n_offsets mapping (snd (snd x))"
  then have "[0..<n_offsets mapping (snd (snd x))] = 0 # [Suc 0..<n_offsets mapping (snd (snd x))]"
    by (simp add: upt_conv_Cons)
  then show ?thesis by (cases x) (simp add: per_offset_def with_offsets_def)
qed

lemma with_offsets_step:
  "Suc i < k \<Longrightarrow> with_offsets x [Suc i..<k] = with_offsets x [Suc i] @ with_offsets x [Suc (Suc i)..<k]"
  by (cases x) (simp add: with_offsets_def upt_conv_Cons)

lemma loop_from_item:
  assumes "list_all (keyed mapping) (filter (in_manifest mapping) raw)"
    and "i < n_offsets mapping (snd (snd x))"
  shows "take_outputs (loop_offsets_next mapping (filter_next mapping)) n (at_item raw x i)
       = (take n (with_offsets x [Suc i..<n_offsets mapping (snd (snd x))]
                    @ per_offset mapping (filter (in_manifest mapping) raw)),
          if length (with_offsets x [Suc i..<n_offsets mapping (snd (snd x))]
                    @ per_offset mapping (filter (in_manifest mapping) raw)) < n
          then Some StopIteration else None)"
  using assms
proof (induction n arbitrary: raw x i)
  case 0
  show ?case by simp
next
  case (Suc n)
  let ?k = "n_offsets mapping (snd (snd x))"
  let ?step = "loop_offsets_next mapping (filter_next mapping)"
  show ?case
  proof (cases "Suc i < ?k")
    case True
    have st: "?step (at_item raw x i) = Inr (output_of (at_item raw x (Suc i)), at_item raw x (Suc i))"
      using True by (rule next_more)
    have sp: "with_offsets x [Suc i..<?k] = output_of (at_item raw x (Suc i)) # with_offsets x [Suc (Suc i)..<?k]"
      using with_offsets_step [OF True, of x] output_at [of raw x "Suc i"] by simp
    show ?thesis
      using Suc.IH [OF Suc.prems(1) True] st sp by simp
  next
    case False
    with Suc.prems(2) have last: "Suc i = ?k" by simp
    then have empty: "with_offsets x [Suc i..<?k] = []"
      by (cases x) (simp add: with_offsets_def)
    show ?thesis
    proof (cases "filter (in_manifest mapping) raw")
      case Nil
      then have "filter_next mapping raw = Inl StopIteration" by (rule filter_next_exhausted)
      then have "advance (filter_next mapping) (at_item raw x i) = Inl StopIteration"
        by (intro advance_stop) simp
      then have "?step (at_item raw x i) = Inl StopIteration"
        using next_last [OF last, of "filter_next mapping" raw] by simp
      with Nil empty show ?thesis by (simp add: per_offset_def)
    next
      case (Cons y ys)
      then obtain rest where nx: "filter_next mapping raw = Inr (y, rest)"
        and rest: "filter (in_manifest mapping) rest = ys"
        using filter_next_first by blast
      have ky: "keyed mapping y" and kys: "list_all (keyed mapping) (filter (in_manifest mapping) rest)"
        using Suc.prems(1) Cons rest by simp_all
      have pos: "0 < n_offsets mapping (snd (snd y))" using ky by (rule keyed_n_offsets)
      have st: "?step (at_item raw x i) = Inr (output_of (at_item rest y 0), at_item rest y 0)"
        using next_last [OF last, of "filter_next mapping" raw] advance_at [of "filter_next mapping" raw y rest x i, OF nx] by simp
      have sp: "per_offset mapping (y # ys)
          = output_of (at_item rest y 0) # with_offsets y [Suc 0..<n_offsets mapping (snd (snd y))]
              @ per_offset mapping ys"
        using per_offset_Cons [OF pos, of ys] output_at [of rest y 0] by simp
      show ?thesis
        using Suc.IH [OF kys pos] st sp Cons rest empty by simp
    qed
  qed
qed

text \<open>
  When the filename of every item that the filter emits is itself a key of the mapping,
  with at least one offset, the pipeline of \<^verbatim>\<open>_filter\<close> and \<^verbatim>\<open>_loop_offsets\<close> yields, for
  each item emitted, in turn, one output for each of the \<open>k\<close> offsets that the mapping
  lists under the filename of the item, with the indices \<open>0, ..., k - 1\<close>, the stream
  being advanced after the last of them only; it ends with \<open>StopIteration\<close>. These are
  the offsets of the file id of the item when the filename is its own file id.
\<close>

theorem loop_offsets_per_offset:
  assumes "list_all (keyed mapping) (filter (in_manifest mapping) raw)"
  shows "take_outputs (loop_offsets_next mapping (filter_next mapping)) n (loop_offsets_init raw)
       = (take n (per_offset mapping (filter (in_manifest mapping) raw)),
          if length (per_offset mapping (filter (in_manifest mapping) raw)) < n
          then Some StopIteration else None)"
proof (cases n)
  case 0
  then show ?thesis by simp
next
  case (Suc n')
  let ?step = "loop_offsets_next mapping (filter_next mapping)"
  show ?thesis
  proof (cases "filter (in_manifest mapping) raw")
    case Nil
    then have "filter_next mapping raw = Inl StopIteration" by (rule filter_next_exhausted)
    then have "advance (filter_next mapping) (loop_offsets_init raw) = Inl StopIteration"
      by (intro advance_stop) (simp add: loop_offsets_init_def)
    then have "?step (loop_offsets_init raw) = Inl StopIteration"
      using next_init [of mapping "filter_next mapping" raw] by simp
    with Nil Suc show ?thesis by (simp add: per_offset_def)
  next
    case (Cons y ys)
    then obtain rest where nx: "filter_next mapping raw = Inr (y, rest)"
      and rest: "filter (in_manifest mapping) rest = ys"
      using filter_next_first by blast
    have ky: "keyed mapping y" and kys: "list_all (keyed mapping) (filter (in_manifest mapping) rest)"
      using assms Cons rest by simp_all
    have pos: "0 < n_offsets mapping (snd (snd y))" using ky by (rule keyed_n_offsets)
    have st: "?step (loop_offsets_init raw) = Inr (output_of (at_item rest y 0), at_item rest y 0)"
      using next_init [of mapping "filter_next mapping" raw] advance_init [of "filter_next mapping" raw y rest, OF nx] by simp
    have sp: "per_offset mapping (y # ys)
        = output_of (at_item rest y 0) # with_offsets y [Suc 0..<n_offsets mapping (snd (snd y))]
            @ per_offset mapping ys"
      using per_offset_Cons [OF pos, of ys] output_at [of rest y 0] by simp
    show ?thesis
      using loop_from_item [OF kys pos, of n'] st sp Cons rest Suc by simp
  qed
qed

theorem loop_offsets_per_offset_witness:
  "take_outputs (loop_offsets_next [''a'' \<mapsto> [0], ''b'' \<mapsto> [1, 2]]
                   (filter_next [''a'' \<mapsto> [0], ''b'' \<mapsto> [1, 2]])) 5
       (loop_offsets_init [(1::nat, 10::nat, ''a''), (2, 20, ''c''), (3, 30, ''b'')])
     = ([(Some 1, Some 10, Some ''a'', 0), (Some 3, Some 30, Some ''b'', 0),
         (Some 3, Some 30, Some ''b'', 1)], Some StopIteration)"
  using loop_offsets_per_offset [of "[''a'' \<mapsto> [0], ''b'' \<mapsto> [1, 2]]"
      "[(1::nat, 10::nat, ''a''), (2, 20, ''c''), (3, 30, ''b'')]" 5]
  by (simp add: in_manifest_def keyed_def per_offset_def with_offsets_def n_offsets_def
      file_id_of_def basename_def splitext_def rfind_def Let_def upt_conv_Cons)

section \<open>Batch collation: proofs\<close>

lemma bit_length_0: "bit_length 0 = 0"
  by (simp add: bit_length.simps [of 0])

lemma bit_length_pos: "n \<noteq> 0 \<Longrightarrow> bit_length n = Suc (bit_length (n div 2))"
  by (simp add: bit_length.simps [of n])

lemma bit_length_eq: "2 ^ k \<le> n \<Longrightarrow> n < 2 ^ Suc k \<Longrightarrow> bit_length n = Suc k"
proof (induction k arbitrary: n)
  case 0
  then have "n = Suc 0" by simp
  then show ?case using bit_length_pos [of "Suc 0"] by (simp add: bit_length_0)
next
  case (Suc k)
  then have "2 ^ k \<le> n div 2" and "n div 2 < 2 ^ Suc k" by simp_all
  then have "bit_length (n div 2) = Suc k" by (rule Suc.IH)
  moreover from Suc.prems have "n \<noteq> 0" by auto
  ultimately show ?case by (simp add: bit_length_pos)
qed

lemma to_double_exact: "\<bar>v\<bar> \<le> 2 ^ 53 \<Longrightarrow> to_double v = v"
proof (cases "v < 0")
  case True
  assume "\<bar>v\<bar> \<le> 2 ^ 53"
  with True have "nat (- v) \<le> 2 ^ 53" by simp
  with True show ?thesis by (simp add: to_double_def to_double_nat_def)
next
  case False
  assume "\<bar>v\<bar> \<le> 2 ^ 53"
  with False have "nat v \<le> 2 ^ 53" by simp
  with False show ?thesis by (simp add: to_double_def to_double_nat_def)
qed

lemma fill_value_exact: "\<bar>v\<bar> \<le> 2 ^ 53 \<Longrightarrow> fill_value v = Inr v"
proof -
  assume b: "\<bar>v\<bar> \<le> 2 ^ 53"
  have "(2::int) ^ 53 < 2 ^ 63" and "(2::int) ^ 63 < 2 ^ 1024" by simp_all
  with b have "- (2 ^ 1024) < v" "v < 2 ^ 1024" "- (2 ^ 63) \<le> v" "v < 2 ^ 63" by linarith+
  then show ?thesis by (simp add: fill_value_def to_double_exact [OF b])
qed

lemma fill_value_rounded: "fill_value 9007199254740993 = Inr 9007199254740992"
proof -
  have "bit_length 9007199254740993 = 54"
    using bit_length_eq [of 53 9007199254740993] by simp
  then have "to_double_nat 9007199254740993 = 9007199254740992"
    by (simp add: to_double_nat_def Let_def)
  then show ?thesis by (simp add: fill_value_def to_double_def)
qed


lemma fill_value_0: "fill_value 0 = Inr 0"
  by (rule fill_value_exact) simp

lemma fill_value_Inr: "fill_value v = Inr d \<Longrightarrow> d = to_double v"
  by (auto simp: fill_value_def Let_def split: if_splits)

lemma fill_value_error: "fill_value v = Inl e \<Longrightarrow> e = OverflowError \<or> e = RuntimeError"
  by (auto simp: fill_value_def Let_def split: if_splits)

lemmas collate_eval = audio_video_speech_collate_fn_def Let_def max_item_def all_tensors_def
  stack_modality_def stack_optional_def append_audio_def append_video_def append_tokens_def
  pad_audio_def pad_video_def pad_tokens_def item_of_def pad1_def pad4_def vshape_def
  zero_frame_def expects_msg_def convert_sample_ids_def int32_tensor_def fill_value_0

lemmas samples = sample_a_def sample_b_def sample_tall_def sample_no_audio_def sample_long_def
  sample_big_id_def

lemmas spec_eval = six_or_seven_def lengths_match_def same_frame_shape_def frame_shape_def
  audio_length_def video_length_def token_length_def max_of_def sample_ids_fit_def

lemma py_max_Max: "xs \<noteq> [] \<Longrightarrow> py_max xs = Inr (Max (set xs))"
proof (cases xs)
  case Nil
  assume "xs \<noteq> []"
  with Nil show ?thesis by simp
next
  case (Cons y ys)
  have "Max (set (y # ys)) = fold max ys y" by (rule Max.set_eq_fold)
  with Cons show ?thesis by simp
qed




lemma unpack_lead: "unpack b = Inr f \<Longrightarrow> f = lead b"
  by (cases b) (auto split: if_splits)

lemma packed_len_Cons: "bs \<noteq> [] \<Longrightarrow> packed_len (b # bs) = min (tuple_len b) (packed_len bs)"
  by (cases bs) simp_all

lemma packed_len_six_or_seven:
  "batch \<noteq> [] \<Longrightarrow> list_all six_or_seven batch \<Longrightarrow> packed_len batch = 6 \<or> packed_len batch = 7"
proof (induction batch)
  case Nil
  then show ?case by simp
next
  case (Cons b bs)
  show ?case
  proof (cases "bs = []")
    case True
    with Cons.prems show ?thesis by (simp add: six_or_seven_def)
  next
    case False
    with Cons have "packed_len bs = 6 \<or> packed_len bs = 7" by simp
    moreover from Cons.prems have "tuple_len b = 6 \<or> tuple_len b = 7"
      by (simp add: six_or_seven_def)
    ultimately show ?thesis unfolding packed_len_Cons [OF False] by auto
  qed
qed

lemma packed_len_le: "b \<in> set batch \<Longrightarrow> packed_len batch \<le> tuple_len b"
proof (induction batch)
  case Nil
  then show ?case by simp
next
  case (Cons x xs)
  show ?case
  proof (cases "xs = []")
    case True
    with Cons.prems show ?thesis by simp
  next
    case False
    with Cons show ?thesis unfolding packed_len_Cons [OF False] by auto
  qed
qed

lemma pad_tokens_Inr:
  "pad_tokens m pad_id f = Inr row \<Longrightarrow>
     row = tokens_i f @ replicate (nat (m - tokens_i_len f)) (to_double pad_id)"
  by (auto simp: pad_tokens_def split: if_splits sum.splits dest: fill_value_Inr)


lemma pad_tokens_error: "pad_tokens m pad_id f = Inl e \<Longrightarrow> e = OverflowError \<or> e = RuntimeError"
  by (auto simp: pad_tokens_def split: if_splits sum.splits dest: fill_value_error)

lemma append_tokens_Inr:
  "append_tokens c f T = Inr T1 \<Longrightarrow>
     T1 = T @ [tokens_i f @ replicate (nat (ctx_max_tokens_len c - tokens_i_len f))
                 (to_double (ctx_pad_id c))]"
  by (auto simp: append_tokens_def split: sum.splits dest: pad_tokens_Inr)

lemma append_tokens_error:
  "append_tokens c f T = Inl e \<Longrightarrow> e = OverflowError \<or> e = RuntimeError"
  by (auto simp: append_tokens_def split: sum.splits dest: pad_tokens_error)

lemma collate_loop_tokens:
  "collate_loop c batch (A, V, T) = Inr (A', V', T') \<Longrightarrow>
     T' = T @ map (\<lambda>b. tokens_i (lead b)
                        @ replicate (nat (ctx_max_tokens_len c - tokens_i_len (lead b)))
                            (to_double (ctx_pad_id c))) batch"
proof (induction batch arbitrary: A V T)
  case Nil
  then show ?case by simp
next
  case (Cons b batch)
  from Cons.prems obtain f where f: "unpack b = Inr f"
    by (auto split: sum.splits)
  then have fl: "f = lead b" by (rule unpack_lead)
  from Cons.prems f obtain A1 V1 T1 where T1: "append_tokens c f T = Inr T1"
    and rest: "collate_loop c batch (A1, V1, T1) = Inr (A', V', T')"
    by (auto split: sum.splits)
  from Cons.IH [OF rest] append_tokens_Inr [OF T1] fl show ?case by simp
qed


lemma stack_Inr: "stack shape xs = Inr ys \<Longrightarrow> ys = xs"
  by (cases xs) (auto split: if_splits)

lemma stack_modality_None:
  "stack_modality has shape signal lengths = Inr (sig', len') \<Longrightarrow>
     (sig' = None) = (\<not> has) \<and> (len' = None) = (\<not> has)"
  by (auto simp: stack_modality_def split: if_splits sum.splits)

lemma collate_InrE:
  assumes "audio_video_speech_collate_fn batch pad_id = Inr out"
  obtains ma mv mt A V T sa la sv lv T' ids where
    "packed_len batch = 7 \<or> packed_len batch = 6"
    "py_max (map (\<lambda>b. tokens_i_len (lead b)) batch) = Inr mt"
    "collate_loop
       \<lparr>ctx_has_audio = (hd (map (\<lambda>b. audio_sig_len (lead b)) batch) \<noteq> None),
        ctx_max_audio_len = ma,
        ctx_has_video = (hd (map (\<lambda>b. video_sig_len (lead b)) batch) \<noteq> None),
        ctx_max_video_len = mv, ctx_max_tokens_len = mt, ctx_pad_id = pad_id\<rparr>
       batch ([], [], []) = Inr (A, V, T)"
    "stack_modality (hd (map (\<lambda>b. audio_sig_len (lead b)) batch) \<noteq> None) length A
       (map (\<lambda>b. audio_sig_len (lead b)) batch) = Inr (sa, la)"
    "stack_modality (hd (map (\<lambda>b. video_sig_len (lead b)) batch) \<noteq> None) vshape V
       (map (\<lambda>b. video_sig_len (lead b)) batch) = Inr (sv, lv)"
    "stack length T = Inr T'"
    "out = \<lparr>out_audio_signal = sa, out_audio_lengths = la,
            out_video_signal = sv, out_video_lengths = lv,
            out_tokens = T', out_tokens_lengths = map (\<lambda>b. tokens_i_len (lead b)) batch,
            out_sample_ids = ids\<rparr>"
proof (cases "packed_len batch = 7 \<or> packed_len batch = 6")
  case False
  with assms show thesis by (simp add: audio_video_speech_collate_fn_def)
next
  case True
  show thesis
    using assms True that
    unfolding audio_video_speech_collate_fn_def Let_def
    by (fastforce split: sum.splits prod.splits)
qed

text \<open>
  Claim C8 says that each padded row of the token tensor ends in copies of \<open>pad_id\<close>.
  \<^verbatim>\<open>torch.nn.functional.pad\<close> takes the pad value as a float, so a \<open>pad_id\<close> that a double
  does not hold is rounded: with \<open>pad_id = 2 ^ 53 + 1\<close> the batch of \<open>sample_a\<close> and
  \<open>sample_b\<close> is returned with the second token row \<open>[9, 2 ^ 53]\<close>.
\<close>

theorem collate_pad_id_rounded:
  "audio_video_speech_collate_fn [sample_a, sample_b] 9007199254740993 =
     Inr \<lparr>out_audio_signal = Some [[1, 2, 3], [4, 0, 0]], out_audio_lengths = Some [3, 1],
          out_video_signal =
            Some [\<lparr>vH = 1, vW = 1, vC = 1, frames = [[[[5]]], [[[0]]]]\<rparr>,
                  \<lparr>vH = 1, vW = 1, vC = 1, frames = [[[[5]]], [[[6]]]]\<rparr>],
          out_video_lengths = Some [1, 2],
          out_tokens = [[7, 8], [9, 9007199254740992]], out_tokens_lengths = [2, 1],
          out_sample_ids = None\<rparr>
   \<and> [9, 9007199254740992] \<noteq> [9, 9007199254740993 :: int]"
proof -
  note fill_value_rounded
  then show ?thesis
    by (simp add: samples audio_video_speech_collate_fn_def Let_def max_item_def all_tensors_def
        stack_modality_def stack_optional_def append_audio_def append_video_def append_tokens_def
        pad_audio_def pad_video_def pad_tokens_def item_of_def pad1_def pad4_def vshape_def
        zero_frame_def convert_sample_ids_def numeral_2_eq_2)
qed

text \<open>
  Claim C8, amended. For every non-empty batch of 6- or 7-element samples that the
  collate function returns a result for, a row of the token tensor whose length entry is
  the maximum \<open>max_token_len\<close> of the length entries of the batch is the token sequence of
  its sample, unchanged; and when \<open>pad_id\<close> is an integer that a double holds exactly
  (\<open>|pad_id| \<le> 2 ^ 53\<close>), each row is the token sequence of its sample followed by
  \<open>max_token_len - token_len\<close> copies of \<open>pad_id\<close>, where \<open>token_len\<close> is the length entry
  of the sample.
\<close>

theorem collate_token_rows:
  assumes "batch \<noteq> []" and "list_all six_or_seven batch"
    and "audio_video_speech_collate_fn batch pad_id = Inr out"
  shows "(\<bar>pad_id\<bar> \<le> 2 ^ 53 \<longrightarrow>
          out_tokens out =
            map (\<lambda>b. tokens_i (lead b)
                      @ replicate (nat (max_of (\<lambda>b. tokens_i_len (lead b)) batch - tokens_i_len (lead b))) pad_id)
              batch)
         \<and> list_all (\<lambda>(b, row). tokens_i_len (lead b) = max_of (\<lambda>b. tokens_i_len (lead b)) batch
                                   \<longrightarrow> row = tokens_i (lead b))
              (zip batch (out_tokens out))"
proof -
  let ?M = "max_of (\<lambda>b. tokens_i_len (lead b)) batch"
  let ?rows = "\<lambda>v. map (\<lambda>b. tokens_i (lead b) @ replicate (nat (?M - tokens_i_len (lead b))) v) batch"
  from assms(3) obtain ma mv mt A V T T' and c :: collate_ctx where
    mx: "py_max (map (\<lambda>b. tokens_i_len (lead b)) batch) = Inr mt"
    and lp: "collate_loop c batch ([], [], []) = Inr (A, V, T)"
    and c: "ctx_max_tokens_len c = mt" "ctx_pad_id c = pad_id"
    and st: "stack length T = Inr T'"
    and out: "out_tokens out = T'"
    by (rule collate_InrE) (fastforce+)
  have "mt = ?M"
    using mx py_max_Max [of "map (\<lambda>b. tokens_i_len (lead b)) batch"] assms(1)
    by (simp add: max_of_def)
  moreover have "T = map (\<lambda>b. tokens_i (lead b)
                        @ replicate (nat (ctx_max_tokens_len c - tokens_i_len (lead b)))
                            (to_double (ctx_pad_id c))) batch"
    using collate_loop_tokens [OF lp] by simp
  moreover have "T' = T" using st by (rule stack_Inr)
  ultimately have rows: "out_tokens out = ?rows (to_double pad_id)"
    using out c by simp
  have exact: "out_tokens out = ?rows pad_id" if "\<bar>pad_id\<bar> \<le> 2 ^ 53"
    using rows to_double_exact [OF that] by simp
  have "list_all (\<lambda>(b, row). tokens_i_len (lead b) = ?M \<longrightarrow> row = tokens_i (lead b))
          (zip batch (?rows (to_double pad_id)))"
    by (simp add: list_all_iff zip_map2 in_set_zip) (auto simp: in_set_conv_nth)
  with rows exact show ?thesis by simp
qed

theorem collate_token_rows_witness:
  "\<exists>out. audio_video_speech_collate_fn [sample_a, sample_b] 0 = Inr out \<and>
      out_tokens out = [[7, 8], [9, 0]]"
proof -
  obtain out where out: "audio_video_speech_collate_fn [sample_a, sample_b] 0 = Inr out"
    by (simp add: samples collate_eval)
  have "[sample_a, sample_b] \<noteq> []" and "list_all six_or_seven [sample_a, sample_b]"
    by (simp_all add: spec_eval samples)
  from collate_token_rows [OF this out] have "out_tokens out = [[7, 8], [9, 0]]"
    by (simp add: spec_eval samples)
  with out show ?thesis by blast
qed

lemma those_length: "those xs = Some ys \<Longrightarrow> length ys = length xs"
  by (induction xs arbitrary: ys) (auto split: option.splits)

lemma all_tensors_error: "all_tensors xs = Inl e \<Longrightarrow> e = TypeError"
  by (auto simp: all_tensors_def split: option.splits)

lemma all_tensors_length: "all_tensors xs = Inr ys \<Longrightarrow> length ys = length xs"
  by (auto simp: all_tensors_def those_length split: option.splits)

lemma max_item_error: "xs \<noteq> [] \<Longrightarrow> max_item xs = Inl e \<Longrightarrow> e = TypeError"
proof -
  assume ne: "xs \<noteq> []" and err: "max_item xs = Inl e"
  show ?thesis
  proof (cases "all_tensors xs")
    case (Inl e')
    with err all_tensors_error [OF Inl] show ?thesis by (simp add: max_item_def)
  next
    case (Inr ys)
    with ne all_tensors_length [OF Inr] have "ys \<noteq> []" by auto
    then have "py_max ys = Inr (Max (set ys))" by (rule py_max_Max)
    with err Inr show ?thesis by (simp add: max_item_def)
  qed
qed

lemma stack_error: "stack shape xs = Inl e \<Longrightarrow> e = RuntimeError"
  by (cases xs) (auto split: if_splits)

lemma stack_modality_error:
  "stack_modality has shape signal lengths = Inl e \<Longrightarrow> e = TypeError \<or> e = RuntimeError"
  by (auto simp: stack_modality_def stack_optional_def split: if_splits sum.splits
        dest: all_tensors_error stack_error)

lemma pad_audio_error: "pad_audio m f = Inl e \<Longrightarrow> e = AttributeError \<or> e = TypeError"
  by (auto simp: pad_audio_def item_of_def pad1_def split: option.splits if_splits)

lemma pad_video_error: "pad_video m f = Inl e \<Longrightarrow> e = AttributeError \<or> e = TypeError"
  by (auto simp: pad_video_def item_of_def pad4_def split: option.splits if_splits)

lemma unpack_error: "unpack b = Inl e \<Longrightarrow> e \<noteq> ValueError expects_msg \<and> \<not> six_or_seven b"
  by (cases b) (auto simp: expects_msg_def six_or_seven_def split: if_splits)

lemma append_audio_error: "append_audio c f A = Inl e \<Longrightarrow> e = AttributeError \<or> e = TypeError"
  by (auto simp: append_audio_def split: if_splits sum.splits dest: pad_audio_error)

lemma append_video_error: "append_video c f V = Inl e \<Longrightarrow> e = AttributeError \<or> e = TypeError"
  by (auto simp: append_video_def split: if_splits sum.splits dest: pad_video_error)

lemma collate_loop_error:
  "collate_loop c batch acc = Inl e \<Longrightarrow>
     e = AttributeError \<or> e = TypeError \<or> e = OverflowError \<or> e = RuntimeError \<or>
     (e \<noteq> ValueError expects_msg \<and> \<not> list_all six_or_seven batch)"
proof (induction batch arbitrary: acc)
  case Nil
  then show ?case by simp
next
  case (Cons b batch)
  obtain A V T where acc: "acc = (A, V, T)" by (cases acc)
  show ?case
  proof (cases "unpack b")
    case (Inl e')
    with Cons.prems acc have "e = e'" by simp
    with unpack_error [OF Inl] show ?thesis by simp
  next
    case f: (Inr f)
    show ?thesis
    proof (cases "append_audio c f A")
      case (Inl e')
      with Cons.prems acc f append_audio_error [OF Inl] show ?thesis by auto
    next
      case A1: (Inr A1)
      show ?thesis
      proof (cases "append_video c f V")
        case (Inl e')
        with Cons.prems acc f A1 append_video_error [OF Inl] show ?thesis by auto
      next
        case V1: (Inr V1)
        show ?thesis
        proof (cases "append_tokens c f T")
          case (Inl e')
          with Cons.prems acc f A1 V1 append_tokens_error [OF Inl] show ?thesis by auto
        next
          case T1: (Inr T1)
          from Cons.prems acc f A1 V1 T1 have "collate_loop c batch (A1, V1, T1) = Inl e"
            by simp
          from Cons.IH [OF this] show ?thesis by auto
        qed
      qed
    qed
  qed
qed

lemma convert_sample_ids_error: "convert_sample_ids ids = Inl e \<Longrightarrow> e = RuntimeError"
  by (auto simp: convert_sample_ids_def int32_tensor_def split: option.splits if_splits)

lemma collate_InlE:
  assumes "audio_video_speech_collate_fn batch pad_id = Inl e"
    and "packed_len batch = 7 \<or> packed_len batch = 6"
  shows "e = AttributeError \<or> e = TypeError \<or> e = OverflowError \<or> e = RuntimeError \<or>
     (e \<noteq> ValueError expects_msg \<and> \<not> list_all six_or_seven batch)"
proof -
  from assms(2) have ne: "batch \<noteq> []" by auto
  then have ne1: "map (\<lambda>b. audio_sig_len (lead b)) batch \<noteq> []"
    and ne2: "map (\<lambda>b. video_sig_len (lead b)) batch \<noteq> []"
    and ne3: "map (\<lambda>b. tokens_i_len (lead b)) batch \<noteq> []" by simp_all
  note mi1 = max_item_error [OF ne1]
  note mi2 = max_item_error [OF ne2]
  have pm: "\<And>e. py_max (map (\<lambda>b. tokens_i_len (lead b)) batch) \<noteq> Inl e"
    using py_max_Max [OF ne3] by simp
  show ?thesis
    using assms unfolding audio_video_speech_collate_fn_def Let_def
    by (auto split: sum.splits if_splits prod.splits
        dest: mi1 mi2 collate_loop_error stack_modality_error stack_error
          convert_sample_ids_error simp: pm)
qed


text \<open>
  Claim C9 says that a ValueError is raised exactly when the packed batch has neither 6
  nor 7 columns. A batch of a 6-element and an 8-element sample has 6 columns, since
  \<^verbatim>\<open>zip\<close> stops at the shortest tuple, and raises a ValueError all the same: the loop
  unpacks the 8-element sample into six variables.
\<close>

theorem collate_unpack_value_error:
  "packed_len [sample_a, sample_long] = 6 \<and>
   audio_video_speech_collate_fn [sample_a, sample_long] 0
     = Inl (ValueError ''too many values to unpack (expected 6)'')"
  by (simp add: collate_eval samples)

text \<open>
  Claim C9, amended. The input-validation error, the ValueError with the message
  \<open>Expects 6 or 7 tensors in the batch!\<close>, is raised if and only if the packed batch has
  neither 6 nor 7 columns. When no sample has more than 7 elements no other ValueError
  is raised, so that a ValueError is raised if and only if the packed batch has neither
  6 nor 7 columns; and for a non-empty batch of 6- or 7-element samples no ValueError is
  raised.
\<close>

theorem collate_value_error:
  "((audio_video_speech_collate_fn batch pad_id = Inl (ValueError expects_msg))
      = (packed_len batch \<noteq> 6 \<and> packed_len batch \<noteq> 7))
   \<and> (list_all (\<lambda>b. tuple_len b \<le> 7) batch \<longrightarrow>
        ((\<exists>msg. audio_video_speech_collate_fn batch pad_id = Inl (ValueError msg))
           = (packed_len batch \<noteq> 6 \<and> packed_len batch \<noteq> 7)))
   \<and> (batch \<noteq> [] \<and> list_all six_or_seven batch \<longrightarrow>
        (\<forall>msg. audio_video_speech_collate_fn batch pad_id \<noteq> Inl (ValueError msg)))"
proof -
  let ?r = "audio_video_speech_collate_fn batch pad_id"
  let ?bad = "packed_len batch \<noteq> 6 \<and> packed_len batch \<noteq> 7"
  have raised: "?r = Inl (ValueError expects_msg)" if "?bad"
    using that by (simp add: audio_video_speech_collate_fn_def)
  have not_expects: "?r \<noteq> Inl (ValueError expects_msg)" if "\<not> ?bad"
  proof
    assume "?r = Inl (ValueError expects_msg)"
    from collate_InlE [OF this] that show False by auto
  qed
  have none: "?r \<noteq> Inl (ValueError msg)" if "\<not> ?bad" and "list_all six_or_seven batch" for msg
  proof
    assume "?r = Inl (ValueError msg)"
    from collate_InlE [OF this] that show False by auto
  qed
  have upto7: "list_all six_or_seven batch"
    if "\<not> ?bad" and le: "list_all (\<lambda>b. tuple_len b \<le> 7) batch"
  proof -
    have "six_or_seven b" if b: "b \<in> set batch" for b
    proof -
      from b le have "tuple_len b \<le> 7" by (simp add: list_all_iff)
      moreover from \<open>\<not> ?bad\<close> packed_len_le [OF b] have "6 \<le> tuple_len b" by auto
      ultimately show ?thesis unfolding six_or_seven_def by linarith
    qed
    then show ?thesis by (simp add: list_all_iff)
  qed
  have first: "(?r = Inl (ValueError expects_msg)) = ?bad"
    using raised not_expects by blast
  have second: "(\<exists>msg. ?r = Inl (ValueError msg)) = ?bad"
    if "list_all (\<lambda>b. tuple_len b \<le> 7) batch"
    using raised none upto7 [OF _ that] by blast
  have third: "\<forall>msg. ?r \<noteq> Inl (ValueError msg)"
    if "batch \<noteq> []" and "list_all six_or_seven batch"
    using none [OF _ that(2)] packed_len_six_or_seven [OF that] by auto
  from first second third show ?thesis by blast
qed

theorem collate_value_error_witness:
  "list_all six_or_seven [sample_a, sample_b] \<and>
   (\<forall>msg. audio_video_speech_collate_fn [sample_a, sample_b] 0 \<noteq> Inl (ValueError msg)) \<and>
   list_all (\<lambda>b. tuple_len b \<le> 7) [sample_a, Short 3] \<and>
   packed_len [sample_a, Short 3] = 3 \<and>
   (\<exists>msg. audio_video_speech_collate_fn [sample_a, Short 3] 0 = Inl (ValueError msg)) \<and>
   audio_video_speech_collate_fn [sample_a, Short 3] 0 = Inl (ValueError expects_msg)"
  using collate_value_error [of "[sample_a, sample_b]" 0] collate_value_error [of "[sample_a, Short 3]" 0]
  by (simp add: spec_eval samples)

lemma packed_len_Min:
  "packed_len batch = (if batch = [] then 0 else Min (set (map tuple_len batch)))"
proof (induction batch)
  case Nil
  show ?case by simp
next
  case (Cons b bs)
  show ?case
  proof (cases "bs = []")
    case True
    then show ?thesis by simp
  next
    case False
    with Cons show ?thesis unfolding packed_len_Cons [OF False] by simp
  qed
qed

lemma packed_len_map:
  assumes "\<And>b. tuple_len (g b) = tuple_len b"
  shows "packed_len (map g batch) = packed_len batch"
proof -
  have "map tuple_len (map g batch) = map tuple_len batch" using assms by simp
  then show ?thesis unfolding packed_len_Min by simp
qed

lemma tuple_len_drop_audio: "tuple_len (drop_audio b) = tuple_len b"
  by (cases b) simp_all

lemma tuple_len_drop_video: "tuple_len (drop_video b) = tuple_len b"
  by (cases b) simp_all

lemma packed_Sample:
  assumes "packed_len batch = 7 \<or> packed_len batch = 6" and "b \<in> set batch"
  obtains f ex where "b = Sample f ex"
proof (cases b)
  case (Short n)
  with packed_len_le [OF assms(2)] assms(1) show ?thesis by auto
next
  case (Sample f ex)
  then show ?thesis by (rule that)
qed

lemma collate_loop_drop_audio:
  "\<not> ctx_has_audio c \<Longrightarrow> collate_loop c (map drop_audio batch) acc = collate_loop c batch acc"
proof (induction batch arbitrary: acc)
  case Nil
  show ?case by simp
next
  case (Cons b batch)
  obtain A V T where acc: "acc = (A, V, T)" by (cases acc)
  show ?case
  proof (cases b)
    case (Short n)
    then show ?thesis using acc by simp
  next
    case (Sample f ex)
    let ?f = "f\<lparr>audio_sig := None, audio_sig_len := None\<rparr>"
    have a: "append_audio c ?f A = append_audio c f A"
      using Cons.prems by (simp add: append_audio_def)
    have "video_sig ?f = video_sig f" and "video_sig_len ?f = video_sig_len f" by simp_all
    then have "pad_video (ctx_max_video_len c) ?f = pad_video (ctx_max_video_len c) f"
      unfolding pad_video_def by (simp only:)
    then have v: "append_video c ?f V = append_video c f V"
      unfolding append_video_def by (simp only:)
    have "tokens_i ?f = tokens_i f" and "tokens_i_len ?f = tokens_i_len f" by simp_all
    then have "pad_tokens (ctx_max_tokens_len c) (ctx_pad_id c) ?f
           = pad_tokens (ctx_max_tokens_len c) (ctx_pad_id c) f"
      unfolding pad_tokens_def by (simp only:)
    then have t: "append_tokens c ?f T = append_tokens c f T"
      unfolding append_tokens_def by (simp only:)
    show ?thesis
      using Sample acc a v t Cons.IH [OF Cons.prems]
      by (simp split: sum.splits)
  qed
qed

lemma collate_loop_drop_video:
  "\<not> ctx_has_video c \<Longrightarrow> collate_loop c (map drop_video batch) acc = collate_loop c batch acc"
proof (induction batch arbitrary: acc)
  case Nil
  show ?case by simp
next
  case (Cons b batch)
  obtain A V T where acc: "acc = (A, V, T)" by (cases acc)
  show ?case
  proof (cases b)
    case (Short n)
    then show ?thesis using acc by simp
  next
    case (Sample f ex)
    let ?f = "f\<lparr>video_sig := None, video_sig_len := None\<rparr>"
    have "audio_sig ?f = audio_sig f" and "audio_sig_len ?f = audio_sig_len f" by simp_all
    then have "pad_audio (ctx_max_audio_len c) ?f = pad_audio (ctx_max_audio_len c) f"
      unfolding pad_audio_def by (simp only:)
    then have a: "append_audio c ?f A = append_audio c f A"
      unfolding append_audio_def by (simp only:)
    have v: "append_video c ?f V = append_video c f V"
      using Cons.prems by (simp add: append_video_def)
    have "tokens_i ?f = tokens_i f" and "tokens_i_len ?f = tokens_i_len f" by simp_all
    then have "pad_tokens (ctx_max_tokens_len c) (ctx_pad_id c) ?f
           = pad_tokens (ctx_max_tokens_len c) (ctx_pad_id c) f"
      unfolding pad_tokens_def by (simp only:)
    then have t: "append_tokens c ?f T = append_tokens c f T"
      unfolding append_tokens_def by (simp only:)
    show ?thesis
      using Sample acc a v t Cons.IH [OF Cons.prems]
      by (simp split: sum.splits)
  qed
qed

lemma stack_modality_absent: "stack_modality False shape signal lengths = Inr (None, None)"
  by (simp add: stack_modality_def)

lemma collate_drop_audio:
  assumes "audio_sig_len (lead (hd batch)) = None"
  shows "audio_video_speech_collate_fn (map drop_audio batch) pad_id
           = audio_video_speech_collate_fn batch pad_id"
proof (cases "packed_len batch = 7 \<or> packed_len batch = 6")
  case False
  then show ?thesis
    by (simp add: audio_video_speech_collate_fn_def packed_len_map [of drop_audio, OF tuple_len_drop_audio])
next
  case True
  then have ne: "batch \<noteq> []" by auto
  have pl: "packed_len (map drop_audio batch) = packed_len batch"
    by (rule packed_len_map) (rule tuple_len_drop_audio)
  have el: "audio_sig_len (lead (drop_audio b)) = None
          \<and> video_sig_len (lead (drop_audio b)) = video_sig_len (lead b)
          \<and> tokens_i_len (lead (drop_audio b)) = tokens_i_len (lead b)
          \<and> extra (drop_audio b) = extra b" if "b \<in> set batch" for b
  proof -
    from True that obtain f ex where "b = Sample f ex" by (rule packed_Sample)
    then show ?thesis by simp
  qed
  have al: "map (\<lambda>b. audio_sig_len (lead b)) (map drop_audio batch) = map (\<lambda>b. None) batch"
    by (simp add: el)
  have vl: "map (\<lambda>b. video_sig_len (lead b)) (map drop_audio batch)
          = map (\<lambda>b. video_sig_len (lead b)) batch"
    by (simp add: el)
  have tl: "map (\<lambda>b. tokens_i_len (lead b)) (map drop_audio batch)
          = map (\<lambda>b. tokens_i_len (lead b)) batch"
    by (simp add: el)
  have ids: "map (\<lambda>b. hd (extra b)) (map drop_audio batch) = map (\<lambda>b. hd (extra b)) batch"
    by (simp add: el)
  have h1: "hd (map (\<lambda>b. None :: int option) batch) = None" using ne by (simp add: hd_map)
  have h2: "hd (map (\<lambda>b. audio_sig_len (lead b)) batch) = None"
    using ne assms by (simp add: hd_map)
  show ?thesis
    unfolding audio_video_speech_collate_fn_def Let_def pl al vl tl ids h1 h2
    by (simp add: collate_loop_drop_audio stack_modality_absent
          cong: sum.case_cong prod.case_cong if_cong)
qed

lemma collate_drop_video:
  assumes "video_sig_len (lead (hd batch)) = None"
  shows "audio_video_speech_collate_fn (map drop_video batch) pad_id
           = audio_video_speech_collate_fn batch pad_id"
proof (cases "packed_len batch = 7 \<or> packed_len batch = 6")
  case False
  then show ?thesis
    by (simp add: audio_video_speech_collate_fn_def packed_len_map [of drop_video, OF tuple_len_drop_video])
next
  case True
  then have ne: "batch \<noteq> []" by auto
  have pl: "packed_len (map drop_video batch) = packed_len batch"
    by (rule packed_len_map) (rule tuple_len_drop_video)
  have el: "video_sig_len (lead (drop_video b)) = None
          \<and> audio_sig_len (lead (drop_video b)) = audio_sig_len (lead b)
          \<and> tokens_i_len (lead (drop_video b)) = tokens_i_len (lead b)
          \<and> extra (drop_video b) = extra b" if "b \<in> set batch" for b
  proof -
    from True that obtain f ex where "b = Sample f ex" by (rule packed_Sample)
    then show ?thesis by simp
  qed
  have al: "map (\<lambda>b. video_sig_len (lead b)) (map drop_video batch) = map (\<lambda>b. None) batch"
    by (simp add: el)
  have vl: "map (\<lambda>b. audio_sig_len (lead b)) (map drop_video batch)
          = map (\<lambda>b. audio_sig_len (lead b)) batch"
    by (simp add: el)
  have tl: "map (\<lambda>b. tokens_i_len (lead b)) (map drop_video batch)
          = map (\<lambda>b. tokens_i_len (lead b)) batch"
    by (simp add: el)
  have ids: "map (\<lambda>b. hd (extra b)) (map drop_video batch) = map (\<lambda>b. hd (extra b)) batch"
    by (simp add: el)
  have h1: "hd (map (\<lambda>b. None :: int option) batch) = None" using ne by (simp add: hd_map)
  have h2: "hd (map (\<lambda>b. video_sig_len (lead b)) batch) = None"
    using ne assms by (simp add: hd_map)
  show ?thesis
    unfolding audio_video_speech_collate_fn_def Let_def pl al vl tl ids h1 h2
    by (simp add: collate_loop_drop_video stack_modality_absent
          cong: sum.case_cong prod.case_cong if_cong)
qed


text \<open>
  Claim C10. Whether the output holds the audio, and whether it holds the video, is
  decided by the first sample alone. In every result the collate function returns, the
  audio signal and the audio lengths are \<^verbatim>\<open>None\<close> exactly when the audio length entry of
  the first sample is \<^verbatim>\<open>None\<close>, and likewise for the video. When that entry is \<^verbatim>\<open>None\<close>
  the audio entries of the other samples are not looked at, present or not: two batches
  that differ in audio entries only give the same result or raise the same exception.
  Likewise for the video.
\<close>

theorem collate_presence_by_first:
  "(\<forall>out. audio_video_speech_collate_fn batch pad_id = Inr out \<longrightarrow>
       (out_audio_signal out = None) = (audio_sig_len (lead (hd batch)) = None) \<and>
       (out_audio_lengths out = None) = (audio_sig_len (lead (hd batch)) = None) \<and>
       (out_video_signal out = None) = (video_sig_len (lead (hd batch)) = None) \<and>
       (out_video_lengths out = None) = (video_sig_len (lead (hd batch)) = None))
   \<and> (\<forall>batch'. audio_sig_len (lead (hd batch)) = None \<and> audio_sig_len (lead (hd batch')) = None \<and>
         map drop_audio batch' = map drop_audio batch \<longrightarrow>
         audio_video_speech_collate_fn batch' pad_id = audio_video_speech_collate_fn batch pad_id)
   \<and> (\<forall>batch'. video_sig_len (lead (hd batch)) = None \<and> video_sig_len (lead (hd batch')) = None \<and>
         map drop_video batch' = map drop_video batch \<longrightarrow>
         audio_video_speech_collate_fn batch' pad_id = audio_video_speech_collate_fn batch pad_id)"
proof (intro conjI allI impI)
  fix out
  assume r: "audio_video_speech_collate_fn batch pad_id = Inr out"
  from r obtain sa la sv lv where
    p: "packed_len batch = 7 \<or> packed_len batch = 6"
    and a: "stack_modality (hd (map (\<lambda>b. audio_sig_len (lead b)) batch) \<noteq> None) length
              (sa :: 'a list option list) (map (\<lambda>b. audio_sig_len (lead b)) batch)
            = Inr (out_audio_signal out, out_audio_lengths out)"
    and v: "stack_modality (hd (map (\<lambda>b. video_sig_len (lead b)) batch) \<noteq> None) vshape
              (sv :: 'a video option list) (map (\<lambda>b. video_sig_len (lead b)) batch)
            = Inr (out_video_signal out, out_video_lengths out)"
    by (rule collate_InrE) auto
  from p have ne: "batch \<noteq> []" by auto
  from stack_modality_None [OF a] ne
  show "(out_audio_signal out = None) = (audio_sig_len (lead (hd batch)) = None)"
    and "(out_audio_lengths out = None) = (audio_sig_len (lead (hd batch)) = None)"
    by (simp_all add: hd_map)
  from stack_modality_None [OF v] ne
  show "(out_video_signal out = None) = (video_sig_len (lead (hd batch)) = None)"
    and "(out_video_lengths out = None) = (video_sig_len (lead (hd batch)) = None)"
    by (simp_all add: hd_map)
next
  fix batch' :: "'a sample list"
  assume h: "audio_sig_len (lead (hd batch)) = None \<and> audio_sig_len (lead (hd batch')) = None \<and>
         map drop_audio batch' = map drop_audio batch"
  then show "audio_video_speech_collate_fn batch' pad_id = audio_video_speech_collate_fn batch pad_id"
    using collate_drop_audio [of batch pad_id] collate_drop_audio [of batch' pad_id] by simp
next
  fix batch' :: "'a sample list"
  assume h: "video_sig_len (lead (hd batch)) = None \<and> video_sig_len (lead (hd batch')) = None \<and>
         map drop_video batch' = map drop_video batch"
  then show "audio_video_speech_collate_fn batch' pad_id = audio_video_speech_collate_fn batch pad_id"
    using collate_drop_video [of batch pad_id] collate_drop_video [of batch' pad_id] by simp
qed

theorem collate_presence_by_first_witness:
  "(\<exists>out. audio_video_speech_collate_fn [sample_no_audio, sample_a] 0 = Inr out \<and>
      out_audio_signal out = None \<and> out_audio_lengths out = None \<and>
      out_video_signal out \<noteq> None \<and> out_video_lengths out \<noteq> None) \<and>
   audio_video_speech_collate_fn [sample_no_audio, sample_a] 0
     = audio_video_speech_collate_fn [sample_no_audio, drop_audio sample_a] 0"
proof -
  obtain out where out: "audio_video_speech_collate_fn [sample_no_audio, sample_a] 0 = Inr out"
    by (simp add: samples collate_eval)
  from collate_presence_by_first [of "[sample_no_audio, sample_a]" 0, THEN conjunct1, rule_format, OF out]
  have "out_audio_signal out = None \<and> out_audio_lengths out = None \<and>
      out_video_signal out \<noteq> None \<and> out_video_lengths out \<noteq> None"
    by (simp add: samples)
  with out have first: "\<exists>out. audio_video_speech_collate_fn [sample_no_audio, sample_a] 0 = Inr out \<and>
      out_audio_signal out = None \<and> out_audio_lengths out = None \<and>
      out_video_signal out \<noteq> None \<and> out_video_lengths out \<noteq> None"
    by blast
  have second: "audio_video_speech_collate_fn [sample_no_audio, sample_a] 0
     = audio_video_speech_collate_fn [sample_no_audio, drop_audio sample_a] 0"
    by (rule collate_presence_by_first [of "[sample_no_audio, drop_audio sample_a]" 0,
          THEN conjunct2, THEN conjunct1, rule_format])
       (simp add: samples)
  from first second show ?thesis by blast
qed


















end
